theory Spec2Isabelle
  imports Complex_Main "HOL-Library.Stream"
begin

section \<open>Integer arithmetic of the source\<close>

text \<open>
  The source is ROBOTC, a C dialect. An \<open>int\<close> is taken to be 32 bits wide, in two's
  complement, and arithmetic that leaves this range wraps around. Values are modelled
  as HOL integers. \<open>int32\<close> is the wrap-around; it is applied where a result can leave
  the range: the product \<open>20 * heading\<close> and the difference \<open>heading - startAngle\<close> in
  \<open>turnToHeading\<close>. The other integer arithmetic on the paths verified below stays
  small by construction: in \<open>scaleJoystick\<close> the products are formed after the clamp
  (at most \<open>127 * 100\<close> and \<open>100 * 99\<close>); \<open>speed + 10\<close> is formed only when
  \<open>speed \<le> 100\<close>; and \<open>numReadings\<close> never exceeds 6.

  C's integer division truncates towards zero, whereas \<open>div\<close> on \<open>int\<close> rounds down;
  \<open>cdiv\<close> is the C operator \<open>/\<close> and \<open>crem\<close> the C operator \<open>%\<close>.
\<close>

definition int32 :: "int \<Rightarrow> int" where
  "int32 x = (x + 2147483648) mod 4294967296 - 2147483648"

definition cdiv :: "int \<Rightarrow> int \<Rightarrow> int" where
  "cdiv a b = sgn a * sgn b * (\<bar>a\<bar> div \<bar>b\<bar>)"

definition crem :: "int \<Rightarrow> int \<Rightarrow> int" where
  "crem a b = a - b * cdiv a b"

section \<open>Joystick scaling (\<open>scaleJoystick\<close>)\<close>

text \<open>\<open>const int kMaximumPowerLevel = 100;\<close>\<close>

definition kMaximumPowerLevel :: int where
  "kMaximumPowerLevel = 100"

text \<open>The 33 data points \<open>static const int nLogScale[33]\<close>.\<close>

definition nLogScale :: "int list" where
  "nLogScale =
    [0,   0,   6,   7,   8,   9,  10,  11,
     12,  14,  15,  17,  18,  22,  22,  24,
     30,  33,  36,  40,  43,  47,  50,  55,
     60,  66,  72,  77,  81,  89,  95, 100,
     100]"

text \<open>
  \<open>int scaleJoystick(int &yOrig, int nMaxPower = kMaximumPowerLevel)\<close>.
  The global \<open>bUseLogarithmicScale\<close> (initialised to \<open>true\<close> and assigned nowhere in the
  sources) is the first argument. The reference parameter \<open>yOrig\<close> is only read.
  Each \<open>let\<close> is one assignment to the local \<open>yScaled\<close>, in the order of the source.
  The table is indexed with \<open>cdiv yScaled 4\<close>, whose magnitude is at most 31 after the
  clamp (lemma \<open>bucket_bounds\<close>), so every lookup is inside the 33 entries.
\<close>

definition scaleJoystick :: "bool \<Rightarrow> int \<Rightarrow> int \<Rightarrow> int" where
  "scaleJoystick bUseLogarithmicScale yOrig nMaxPower =
    (let yScaled = (if yOrig < 0 then max yOrig (- 127) else min yOrig 127);
         yScaled =
           (if bUseLogarithmicScale then
              (let yScaled = cdiv yScaled 4
               in if yScaled \<ge> 0 then nLogScale ! nat yScaled
                  else - (nLogScale ! nat (- yScaled)))
            else if \<bar>yScaled\<bar> < 10 then 0
            else (let yScaled = yScaled * 100 in cdiv yScaled 127));
         yScaled =
           (if nMaxPower < kMaximumPowerLevel \<and> nMaxPower > 0
            then (let yScaled = yScaled * nMaxPower in cdiv yScaled kMaximumPowerLevel)
            else yScaled)
     in yScaled)"

section \<open>Capping (\<open>cap100\<close>)\<close>

definition cap100 :: "int \<Rightarrow> int" where
  "cap100 value = (if value > 0 then min value 100 else max value (- 100))"


section \<open>The hardware seen by the control code\<close>

text \<open>
  The motor channels written by the sources (\<open>motor[motorNW]\<close> and so on).
\<close>

datatype motorPort = motorNW | motorNE | motorSE | motorSW | motorArm

text \<open>
  Every access to the hardware, in program order: a heading returned by
  \<open>HTMCreadHeading(sensorCompass)\<close>, a write \<open>motor[p] = v\<close>, a write
  \<open>nMotorEncoder[p] = v\<close>, a value read from \<open>nMotorEncoder[p]\<close>, and a wait of so many
  milliseconds.
\<close>

datatype event =
    ReadHeading int
  | SetMotor motorPort int
  | SetEncoder motorPort int
  | ReadEncoder motorPort int
  | Wait nat

text \<open>
  The state threaded through the control code. \<open>motor\<close> is the \<open>motor[]\<close> array,
  holding the \<open>int\<close> last assigned to each channel. \<open>sensorCompass\<close> is the sequence
  of headings that the compass driver is going to return, one per call, and
  \<open>encoderArm\<close> the sequence of values that reads of \<open>nMotorEncoder[motorArm]\<close> are
  going to return: both are inputs from the environment and are not constrained.
  \<open>events\<close> records the hardware accesses made so far.
\<close>

record world =
  motor :: "motorPort \<Rightarrow> int"
  sensorCompass :: "int stream"
  encoderArm :: "int stream"
  events :: "event list"

text \<open>\<open>motor[p] = v;\<close>\<close>

definition setMotor :: "motorPort \<Rightarrow> int \<Rightarrow> world \<Rightarrow> world" where
  "setMotor p v w = w\<lparr>motor := (motor w)(p := v), events := events w @ [SetMotor p v]\<rparr>"

text \<open>
  Modelled from the spec: \<open>HTMCreadHeading\<close> comes from the compass driver header, which
  is not among the sources. The spec describes it as one heading sensor read returning
  integer degrees, polled on demand. A call returns the next heading of the trace and
  moves the trace on by one.
\<close>

definition HTMCreadHeading :: "world \<Rightarrow> int \<times> world" where
  "HTMCreadHeading w =
     (shd (sensorCompass w),
      w\<lparr>sensorCompass := stl (sensorCompass w),
        events := events w @ [ReadHeading (shd (sensorCompass w))]\<rparr>)"

text \<open>\<open>nMotorEncoder[motorArm] = v;\<close> and a read of \<open>nMotorEncoder[motorArm]\<close>.\<close>

definition setEncoderArm :: "int \<Rightarrow> world \<Rightarrow> world" where
  "setEncoderArm v w = w\<lparr>events := events w @ [SetEncoder motorArm v]\<rparr>"

definition readEncoderArm :: "world \<Rightarrow> int \<times> world" where
  "readEncoderArm w =
     (shd (encoderArm w),
      w\<lparr>encoderArm := stl (encoderArm w),
        events := events w @ [ReadEncoder motorArm (shd (encoderArm w))]\<rparr>)"

text \<open>\<open>wait1Msec(n)\<close> and \<open>wait10Msec(n)\<close>.\<close>

definition wait1Msec :: "nat \<Rightarrow> world \<Rightarrow> world" where
  "wait1Msec n w = w\<lparr>events := events w @ [Wait n]\<rparr>"

definition wait10Msec :: "nat \<Rightarrow> world \<Rightarrow> world" where
  "wait10Msec n w = w\<lparr>events := events w @ [Wait (10 * n)]\<rparr>"

section \<open>Drive kinematics (\<open>spin\<close>, \<open>moveRobot\<close>)\<close>

text \<open>
  \<open>motor[motorNW] = motor[motorNE] = motor[motorSE] = motor[motorSW] = speed;\<close>
  The chained assignment associates to the right: \<open>motorSW\<close> is written first and
  \<open>motorNW\<close> last. The parameter is stored as it is passed: \<open>spin\<close> does not call
  \<open>cap100\<close>.
\<close>

definition spin :: "int \<Rightarrow> world \<Rightarrow> world" where
  "spin speed w =
     setMotor motorNW speed (setMotor motorNE speed (setMotor motorSE speed
       (setMotor motorSW speed w)))"

text \<open>
  \<open>moveRobot\<close> computes in \<open>float\<close>. The model computes in the real numbers, so it
  leaves the rounding of each floating-point operation out. Conversion of a \<open>float\<close>
  to an \<open>int\<close> (the argument of \<open>cap100\<close>, and the assignments to \<open>mNWvalue\<close> and its
  siblings) drops the fraction, as in C.
\<close>

definition float_to_int :: "real \<Rightarrow> int" where
  "float_to_int r = (if r \<ge> 0 then \<lfloor>r\<rfloor> else \<lceil>r\<rceil>)"

text \<open>
  \<open>void moveRobot(float speed, float angle)\<close>. The platform functions \<open>cosDegrees\<close>
  and \<open>sinDegrees\<close> are not part of the sources; they are the first two arguments.
\<close>

definition moveRobot ::
    "(real \<Rightarrow> real) \<Rightarrow> (real \<Rightarrow> real) \<Rightarrow> real \<Rightarrow> real \<Rightarrow> world \<Rightarrow> world" where
  "moveRobot cosDegrees sinDegrees speed angle w =
    (let x_value = cosDegrees angle * real_of_int (cap100 (float_to_int speed));
         y_value = sinDegrees angle * real_of_int (cap100 (float_to_int speed));
         mNWvalue = float_to_int ((- x_value - y_value) / 2);
         w = setMotor motorNW mNWvalue w;
         mNEvalue = float_to_int ((- x_value + y_value) / 2);
         w = setMotor motorNE mNEvalue w;
         mSEvalue = float_to_int ((x_value + y_value) / 2);
         w = setMotor motorSE mSEvalue w;
         mSWvalue = float_to_int ((x_value - y_value) / 2);
         w = setMotor motorSW mSWvalue w
     in w)"

text \<open>
  Modelled from the spec: the platform functions \<open>cosDegrees\<close> and \<open>sinDegrees\<close> are
  not among the sources. The spec writes \<open>cos(heading)\<close> and \<open>sin(heading)\<close> of a
  heading in degrees; these two functions are used for concrete runs of \<open>moveRobot\<close>.
\<close>

definition cosDeg :: "real \<Rightarrow> real" where
  "cosDeg a = cos (a * pi / 180)"

definition sinDeg :: "real \<Rightarrow> real" where
  "sinDeg a = sin (a * pi / 180)"

section \<open>Heading controller (\<open>turnToHeading\<close>)\<close>

text \<open>
  \<open>turnToHeading\<close> holds a \<open>while\<close> loop that can run forever and that calls
  \<open>turnToHeading\<close> again from its body. Both are one recursive function on a program
  point: \<open>AtEntry heading speed\<close> is the start of a call, and
  \<open>AtLoop heading speed lastReading numReadings\<close> is the test of the \<open>while\<close> loop with
  these values of the locals. \<open>None\<close> is a run that never returns.

  The local \<open>direction\<close> is computed and never used; \<open>speed\<close> is used only in the
  test \<open>speed > 100\<close> and in the argument \<open>speed + 10\<close> of the retry.
\<close>

datatype turnPoint = AtEntry int int | AtLoop int int int int

partial_function (option) turnToHeading_from ::
    "turnPoint \<Rightarrow> world \<Rightarrow> (bool \<times> world) option" where
  "turnToHeading_from pt w =
    (case pt of
       AtEntry heading speed \<Rightarrow>
         if speed > 100 then Some (False, w)
         else
           (let (startAngle, w) = HTMCreadHeading w;
                lastReading = startAngle;
                direction = (if crem (int32 (heading - startAngle)) 360 > 180 then 1 else - 1 :: int);
                numReadings = 0
            in turnToHeading_from (AtLoop heading speed lastReading numReadings) w)
     | AtLoop heading speed lastReading numReadings \<Rightarrow>
         (let (currentReading, w) = HTMCreadHeading w
          in if heading \<noteq> currentReading then
               (let w = spin (int32 (20 * heading)) w;
                    w = wait10Msec 1 w;
                    numReadings =
                      (if currentReading = lastReading then numReadings + 1 else 0)
                in if numReadings > 5 then
                     (let w = spin 0 w
                      in turnToHeading_from (AtEntry heading (speed + 10)) w)
                   else
                     (let lastReading = currentReading
                      in turnToHeading_from (AtLoop heading speed lastReading numReadings) w))
             else Some (True, w)))"

declare turnToHeading_from.simps [code]

text \<open>\<open>bool turnToHeading(const int heading, const int speed=20)\<close>\<close>

definition turnToHeading :: "int \<Rightarrow> int \<Rightarrow> world \<Rightarrow> (bool \<times> world) option" where
  "turnToHeading heading speed w = turnToHeading_from (AtEntry heading speed) w"

text \<open>The \<open>while\<close> loop of \<open>turnToHeading\<close>, entered with the given locals.\<close>

definition turnToHeading_loop ::
    "int \<Rightarrow> int \<Rightarrow> int \<Rightarrow> int \<Rightarrow> world \<Rightarrow> (bool \<times> world) option" where
  "turnToHeading_loop heading speed lastReading numReadings w =
     turnToHeading_from (AtLoop heading speed lastReading numReadings) w"

section \<open>Arm stepper (\<open>armStep\<close>)\<close>

text \<open>
  The two busy-wait loops of \<open>armStep\<close>. Neither has a bound on its iterations;
  \<open>None\<close> is a loop that never exits.
\<close>

partial_function (option) armStep_up :: "int \<Rightarrow> world \<Rightarrow> world option" where
  "armStep_up stepSize w =
    (let (enc, w) = readEncoderArm w
     in if enc < \<bar>stepSize\<bar> then armStep_up stepSize (wait1Msec 5 w) else Some w)"

partial_function (option) armStep_down :: "int \<Rightarrow> world \<Rightarrow> world option" where
  "armStep_down stepSize w =
    (let (enc, w) = readEncoderArm w
     in if enc > - \<bar>stepSize\<bar> then armStep_down stepSize (wait1Msec 5 w) else Some w)"

declare armStep_up.simps [code]
declare armStep_down.simps [code]

text \<open>\<open>void armStep(int speed, int stepSize)\<close>\<close>

definition armStep :: "int \<Rightarrow> int \<Rightarrow> world \<Rightarrow> world option" where
  "armStep speed stepSize w =
    (let direction = (if speed > 0 then 1 else - 1 :: int);
         w = setEncoderArm 0 w;
         w = wait10Msec 1 w;
         w = setMotor motorArm speed w
     in if direction = 1 then armStep_up stepSize w else armStep_down stepSize w)"

section \<open>Derived notions used in the statements and proofs\<close>

text \<open>
  The value of \<open>scaleJoystick\<close> with the default \<open>nMaxPower\<close>, that is, before any
  rescaling.
\<close>

definition joystickCurve :: "bool \<Rightarrow> int \<Rightarrow> int" where
  "joystickCurve b yOrig = scaleJoystick b yOrig kMaximumPowerLevel"

text \<open>
  The hardware accesses of one iteration of the loop of \<open>turnToHeading\<close> whose poll
  does not read the target: the read in the loop test, \<open>spin(20*heading)\<close> with the
  product wrapped to an \<open>int\<close>, and
  \<open>wait10Msec(1)\<close>.
\<close>

definition pollMiss :: "int \<Rightarrow> world \<Rightarrow> world" where
  "pollMiss heading w =
     wait10Msec 1 (spin (int32 (20 * heading)) (snd (HTMCreadHeading w)))"

text \<open>
  The hardware accesses of a sensor read that returned \<open>r\<close>, followed by \<open>spin(v)\<close> and
  \<open>wait10Msec(1)\<close>, in program order.
\<close>

definition pollEvents :: "int \<Rightarrow> int \<Rightarrow> event list" where
  "pollEvents r v =
     [ReadHeading r, SetMotor motorSW v, SetMotor motorSE v, SetMotor motorNE v,
      SetMotor motorNW v, Wait 10]"

text \<open>
  The hardware accesses of one call of \<open>turnToHeading\<close> that stalls on a frozen sensor:
  the read of the start angle, six iterations that miss, and \<open>spin(0)\<close>.
\<close>

definition stallOnce :: "int \<Rightarrow> world \<Rightarrow> world" where
  "stallOnce heading w = spin 0 ((pollMiss heading ^^ 6) (snd (HTMCreadHeading w)))"

text \<open>One iteration of a busy-wait loop of \<open>armStep\<close>: the encoder read and \<open>wait1Msec(5)\<close>.\<close>

definition pollEncoder :: "world \<Rightarrow> world" where
  "pollEncoder w = wait1Msec 5 (snd (readEncoderArm w))"

text \<open>The statements of \<open>armStep\<close> before its loops.\<close>

definition armStep_start :: "int \<Rightarrow> world \<Rightarrow> world" where
  "armStep_start speed w = setMotor motorArm speed (wait10Msec 1 (setEncoderArm 0 w))"

text \<open>
  \<open>hitAfter k heading w w'\<close>: reading number \<open>k\<close> of the trace of \<open>w\<close> is the target,
  \<open>w'\<close> has consumed the trace up to and including it, and the last hardware access
  of \<open>w'\<close> is a sensor read that returned the target.
\<close>

definition hitAfter :: "nat \<Rightarrow> int \<Rightarrow> world \<Rightarrow> world \<Rightarrow> bool" where
  "hitAfter k heading w w' \<longleftrightarrow>
     sensorCompass w !! k = heading \<and>
     sensorCompass w' = sdrop (Suc k) (sensorCompass w) \<and>
     events w' \<noteq> [] \<and> last (events w') = ReadHeading heading"

text \<open>
  What a result \<open>y\<close> of a run from a program point says about the trace when its
  boolean is \<open>true\<close>: from the test of the loop some reading is the target; from the
  start of a call some reading after the first one is.
\<close>

definition hitSpec :: "turnPoint \<Rightarrow> world \<Rightarrow> bool \<times> world \<Rightarrow> bool" where
  "hitSpec pt w y \<longleftrightarrow>
     (fst y \<longrightarrow>
       (case pt of
          AtEntry heading speed \<Rightarrow> \<exists>k. hitAfter (Suc k) heading w (snd y)
        | AtLoop heading speed lastReading numReadings \<Rightarrow> \<exists>k. hitAfter k heading w (snd y)))"

text \<open>
  A state for concrete runs: every motor at 0, no hardware access made yet, and the
  given traces of compass headings and encoder values.
\<close>

definition world0 :: "int stream \<Rightarrow> int stream \<Rightarrow> world" where
  "world0 headings ticks =
     \<lparr>motor = (\<lambda>p. 0), sensorCompass = headings, encoderArm = ticks, events = []\<rparr>"


section \<open>Facts about the arithmetic\<close>

lemma cdiv_nonneg: "0 \<le> a \<Longrightarrow> 0 < b \<Longrightarrow> cdiv a b = a div b"
  by (cases "a = 0") (simp_all add: cdiv_def)

lemma cdiv_neg: "a < 0 \<Longrightarrow> 0 < b \<Longrightarrow> cdiv a b = - ((- a) div b)"
  by (simp add: cdiv_def)

lemma cdiv_minus: "cdiv (- a) b = - cdiv a b"
  by (simp add: cdiv_def sgn_minus)

lemma cdiv_mono:
  assumes "a \<le> a'" "0 < b" shows "cdiv a b \<le> cdiv a' b"
proof -
  consider "0 \<le> a" | "a < 0" "0 \<le> a'" | "a' < 0" using assms by linarith
  then show ?thesis
  proof cases
    case 1
    then show ?thesis using assms by (simp add: cdiv_nonneg zdiv_mono1)
  next
    case 2
    have "0 \<le> (- a) div b" using 2 assms by (simp add: pos_imp_zdiv_nonneg_iff)
    moreover have "0 \<le> a' div b" using 2 assms by (simp add: pos_imp_zdiv_nonneg_iff)
    ultimately show ?thesis using 2 assms by (simp add: cdiv_nonneg cdiv_neg)
  next
    case 3
    have "(- a') div b \<le> (- a) div b" using assms by (simp add: zdiv_mono1)
    then show ?thesis using 3 assms by (simp add: cdiv_neg)
  qed
qed

lemma abs_cdiv: "\<bar>cdiv a b\<bar> = \<bar>a\<bar> div \<bar>b\<bar>"
proof -
  have "0 \<le> \<bar>a\<bar> div \<bar>b\<bar>" by (cases "b = 0") (simp_all add: pos_imp_zdiv_nonneg_iff)
  then show ?thesis by (cases "a = 0"; cases "b = 0") (simp_all add: cdiv_def abs_mult)
qed

section \<open>Facts about the hardware primitives\<close>

lemma world0_simps [simp]:
  "motor (world0 hs ts) = (\<lambda>p. 0)" "sensorCompass (world0 hs ts) = hs"
  "encoderArm (world0 hs ts) = ts" "events (world0 hs ts) = []"
  by (simp_all add: world0_def)

lemma sensorCompass_setMotor [simp]: "sensorCompass (setMotor p v w) = sensorCompass w"
  by (simp add: setMotor_def)

lemma sensorCompass_spin [simp]: "sensorCompass (spin v w) = sensorCompass w"
  by (simp add: spin_def)

lemma sensorCompass_wait10Msec [simp]: "sensorCompass (wait10Msec n w) = sensorCompass w"
  by (simp add: wait10Msec_def)

lemma sensorCompass_read [simp]: "sensorCompass (snd (HTMCreadHeading w)) = stl (sensorCompass w)"
  by (simp add: HTMCreadHeading_def)

lemma fst_read [simp]: "fst (HTMCreadHeading w) = shd (sensorCompass w)"
  by (simp add: HTMCreadHeading_def)

lemma events_read [simp]:
  "events (snd (HTMCreadHeading w)) = events w @ [ReadHeading (shd (sensorCompass w))]"
  by (simp add: HTMCreadHeading_def)

lemma motor_spin: "motor (spin v w) p = (if p = motorArm then motor w p else v)"
  by (cases p) (simp_all add: spin_def setMotor_def)

section \<open>Properties of \<open>scaleJoystick\<close>\<close>

lemma sorted_nLogScale: "sorted nLogScale"
  by (simp add: nLogScale_def)

lemma length_nLogScale: "length nLogScale = 33"
  by (simp add: nLogScale_def)

lemma nLogScale_mono: "i \<le> j \<Longrightarrow> j < 33 \<Longrightarrow> nLogScale ! i \<le> nLogScale ! j"
  using sorted_nth_mono [OF sorted_nLogScale, of i j] by (simp add: length_nLogScale)

lemma nLogScale_range: "i < 33 \<Longrightarrow> 0 \<le> nLogScale ! i \<and> nLogScale ! i \<le> 100"
proof -
  assume i: "i < 33"
  have "\<forall>x \<in> set nLogScale. 0 \<le> x \<and> x \<le> 100"
    by (simp add: nLogScale_def)
  moreover have "nLogScale ! i \<in> set nLogScale"
    using i by (simp add: length_nLogScale)
  ultimately show ?thesis by blast
qed

lemma nLogScale_0: "nLogScale ! 0 = 0"
  by (simp add: nLogScale_def)

lemma nLogScale_1: "nLogScale ! Suc 0 = 0"
  by (simp add: nLogScale_def)

lemma nLogScale_2: "nLogScale ! 2 = 6"
  by (simp add: nLogScale_def)

text \<open>After the clamp the table index has magnitude at most 31: no lookup leaves the table.\<close>

lemma bucket_bounds:
  "- 31 \<le> cdiv (if y < 0 then max y (- 127) else min y 127) 4 \<and>
   cdiv (if y < 0 then max y (- 127) else min y 127) 4 \<le> 31"
proof -
  let ?c = "if y < 0 then max y (- 127) else min y 127"
  have c: "- 127 \<le> ?c" "?c \<le> 127" by auto
  have "cdiv (- 127) 4 \<le> cdiv ?c 4" by (rule cdiv_mono [OF c(1)]) simp
  moreover have "cdiv ?c 4 \<le> cdiv 127 4" by (rule cdiv_mono [OF c(2)]) simp
  moreover have "cdiv (- 127) 4 = - 31" "cdiv 127 4 = 31" by (simp_all add: cdiv_def)
  ultimately show ?thesis by simp
qed

lemma curve_log:
  "joystickCurve True y =
    (let i = cdiv (if y < 0 then max y (- 127) else min y 127) 4
     in if i \<ge> 0 then nLogScale ! nat i else - (nLogScale ! nat (- i)))"
  by (simp add: joystickCurve_def scaleJoystick_def Let_def)

lemma curve_lin:
  "joystickCurve False y =
    (let c = (if y < 0 then max y (- 127) else min y 127)
     in if \<bar>c\<bar> < 10 then 0 else cdiv (c * 100) 127)"
  by (simp add: joystickCurve_def scaleJoystick_def Let_def)

lemma scaleJoystick_stages:
  "scaleJoystick b y m =
     (if m < 100 \<and> m > 0 then cdiv (joystickCurve b y * m) 100 else joystickCurve b y)"
  by (simp add: joystickCurve_def scaleJoystick_def Let_def kMaximumPowerLevel_def)

lemma curve_log_bound: "\<bar>joystickCurve True y\<bar> \<le> 100"
proof -
  define i where "i = cdiv (if y < 0 then max y (- 127) else min y 127) 4"
  have b: "- 31 \<le> i" "i \<le> 31" using bucket_bounds [of y] by (simp_all add: i_def)
  show ?thesis
  proof (cases "i \<ge> 0")
    case True
    then have "nat i < 33" using b by simp
    from nLogScale_range [OF this] True show ?thesis
      by (simp add: curve_log i_def [symmetric])
  next
    case False
    then have "nat (- i) < 33" using b by simp
    from nLogScale_range [OF this] False show ?thesis
      by (simp add: curve_log i_def [symmetric])
  qed
qed

lemma curve_lin_bound: "\<bar>joystickCurve False y\<bar> \<le> 100"
proof -
  define c where "c = (if y < 0 then max y (- 127) else min y 127)"
  have c: "\<bar>c\<bar> \<le> 127" by (auto simp: c_def)
  have "\<bar>cdiv (c * 100) 127\<bar> = (\<bar>c\<bar> * 100) div 127"
    by (simp add: abs_cdiv abs_mult)
  also have "\<dots> \<le> (127 * 100) div 127"
    by (rule zdiv_mono1) (use c in simp_all)
  finally have "\<bar>cdiv (c * 100) 127\<bar> \<le> 100" by simp
  then show ?thesis by (simp add: curve_lin c_def [symmetric])
qed

lemma curve_bound: "\<bar>joystickCurve b y\<bar> \<le> 100"
  by (cases b) (simp_all add: curve_log_bound curve_lin_bound)

lemma rescale_bound:
  assumes "\<bar>v\<bar> \<le> 100" "0 < m"
  shows "\<bar>cdiv (v * m) 100\<bar> \<le> m"
proof -
  have "\<bar>v\<bar> * m \<le> 100 * m" using assms by (simp add: mult_right_mono)
  then have "(\<bar>v\<bar> * m) div 100 \<le> (100 * m) div 100" by (rule zdiv_mono1) simp
  moreover have "\<bar>cdiv (v * m) 100\<bar> = (\<bar>v\<bar> * m) div 100"
    using assms by (simp add: abs_cdiv abs_mult)
  ultimately show ?thesis by simp
qed

text \<open>
  C7. In either mode and for every axis reading \<open>raw\<close> (in particular for every
  reading in \<open>[-128, 127]\<close>): if \<open>nMaxPower\<close> lies in \<open>(0, 100]\<close>, the result of
  \<open>scaleJoystick\<close> has magnitude at most \<open>nMaxPower\<close>; if \<open>nMaxPower\<close> lies outside
  \<open>(0, 100]\<close>, the argument is ignored and the result is the one for \<open>nMaxPower = 100\<close>,
  the unscaled value of the curve.
\<close>

theorem scaleJoystick_maxPower:
  "(0 < nMaxPower \<and> nMaxPower \<le> 100 \<longrightarrow>
      \<bar>scaleJoystick b raw nMaxPower\<bar> \<le> nMaxPower) \<and>
   (\<not> (0 < nMaxPower \<and> nMaxPower \<le> 100) \<longrightarrow>
      scaleJoystick b raw nMaxPower = scaleJoystick b raw 100)"
proof (intro conjI impI)
  assume m: "0 < nMaxPower \<and> nMaxPower \<le> 100"
  show "\<bar>scaleJoystick b raw nMaxPower\<bar> \<le> nMaxPower"
  proof (cases "nMaxPower < 100")
    case True
    with m rescale_bound [OF curve_bound, of nMaxPower b raw] show ?thesis
      by (simp add: scaleJoystick_stages)
  next
    case False
    with m have "nMaxPower = 100" by simp
    with curve_bound [of b raw] show ?thesis by (simp add: scaleJoystick_stages)
  qed
next
  assume "\<not> (0 < nMaxPower \<and> nMaxPower \<le> 100)"
  then show "scaleJoystick b raw nMaxPower = scaleJoystick b raw 100"
    by (auto simp: scaleJoystick_stages)
qed

theorem scaleJoystick_maxPower_witness:
  "(0::int) < 50 \<and> (50::int) \<le> 100 \<and> \<bar>scaleJoystick True 127 50\<bar> \<le> 50 \<and>
   \<not> (0 < (150::int) \<and> (150::int) \<le> 100) \<and>
   scaleJoystick False (- 128) 150 = scaleJoystick False (- 128) 100"
  using scaleJoystick_maxPower [of 50 True 127] scaleJoystick_maxPower [of 150 False "- 128"]
  by simp

lemma lookup_mono:
  assumes "i \<le> j" "- 31 \<le> i" "j \<le> 31"
  shows "(if i \<ge> 0 then nLogScale ! nat i else - (nLogScale ! nat (- i)))
       \<le> (if j \<ge> 0 then nLogScale ! nat j else - (nLogScale ! nat (- j)))"
proof -
  consider "0 \<le> i" | "i < 0" "0 \<le> j" | "j < 0" using assms by linarith
  then show ?thesis
  proof cases
    case 1
    then have "nat i \<le> nat j" "nat j < 33" using assms by simp_all
    from nLogScale_mono [OF this] 1 assms show ?thesis by simp
  next
    case 2
    have "nat (- i) < 33" "nat j < 33" using 2 assms by simp_all
    from nLogScale_range [OF this(1)] nLogScale_range [OF this(2)] 2 show ?thesis by simp
  next
    case 3
    then have "nat (- j) \<le> nat (- i)" "nat (- i) < 33" using assms by simp_all
    from nLogScale_mono [OF this] 3 assms show ?thesis by simp
  qed
qed

lemma curve_log_mono: assumes "a \<le> b" shows "joystickCurve True a \<le> joystickCurve True b"
proof -
  let ?c = "\<lambda>y::int. if y < 0 then max y (- 127) else min y 127"
  have "?c a \<le> ?c b" using assms by auto
  then have "cdiv (?c a) 4 \<le> cdiv (?c b) 4" by (rule cdiv_mono) simp
  from lookup_mono [OF this] bucket_bounds [of a] bucket_bounds [of b]
  show ?thesis by (simp add: curve_log Let_def)
qed

lemma curve_log_odd: "joystickCurve True (- y) = - joystickCurve True y"
proof -
  let ?c = "\<lambda>y::int. if y < 0 then max y (- 127) else min y 127"
  have "?c (- y) = - ?c y" by auto
  then have e: "cdiv (?c (- y)) 4 = - cdiv (?c y) 4" by (simp only: cdiv_minus)
  show ?thesis
    unfolding curve_log Let_def e
    by (cases "cdiv (?c y) 4 = 0") (auto simp: nLogScale_0)
qed

text \<open>
  C8. In logarithmic mode with the default \<open>nMaxPower\<close>, \<open>scaleJoystick\<close> is monotonic
  non-decreasing: \<open>a \<le> b\<close> gives a result for \<open>a\<close> that is at most the result for \<open>b\<close>;
  and it is odd: the result for \<open>- raw\<close> is the negation of the result for \<open>raw\<close>, since
  the sign of the input is put back on the magnitude found in the table. Both hold for
  all integers, so in particular on \<open>[-127, 127]\<close>.
\<close>

theorem scaleJoystick_log_monotone_odd:
  "(a \<le> b \<longrightarrow>
      scaleJoystick True a kMaximumPowerLevel \<le> scaleJoystick True b kMaximumPowerLevel) \<and>
   scaleJoystick True (- raw) kMaximumPowerLevel = - scaleJoystick True raw kMaximumPowerLevel"
  using curve_log_mono [of a b] curve_log_odd [of raw] by (simp add: joystickCurve_def)

theorem scaleJoystick_log_monotone_odd_witness:
  "(- 127 :: int) \<le> 127 \<and>
   scaleJoystick True (- 127) kMaximumPowerLevel \<le> scaleJoystick True 127 kMaximumPowerLevel \<and>
   scaleJoystick True (- 64) kMaximumPowerLevel = - scaleJoystick True 64 kMaximumPowerLevel"
  using scaleJoystick_log_monotone_odd [of "- 127" 127 64] by simp

lemma curve_log_zero_iff: "joystickCurve True raw = 0 \<longleftrightarrow> \<bar>raw\<bar> \<le> 7"
proof -
  define c where "c = (if raw < 0 then max raw (- 127) else min raw 127)"
  define i where "i = cdiv c 4"
  have cv: "joystickCurve True raw = (if i \<ge> 0 then nLogScale ! nat i else - (nLogScale ! nat (- i)))"
    by (simp add: curve_log Let_def i_def c_def)
  have b: "- 31 \<le> i" "i \<le> 31" using bucket_bounds [of raw] by (simp_all add: i_def c_def)
  have ai: "\<bar>i\<bar> = \<bar>c\<bar> div 4" by (simp add: i_def abs_cdiv)
  have ac: "\<bar>c\<bar> = min \<bar>raw\<bar> 127" by (auto simp: c_def)
  have small: "\<bar>raw\<bar> \<le> 7 \<longleftrightarrow> \<bar>i\<bar> \<le> 1" unfolding ai ac by (auto simp: min_def)
  have val: "joystickCurve True raw = (if i \<ge> 0 then 1 else - 1) * (nLogScale ! nat \<bar>i\<bar>)"
    by (simp add: cv)
  show ?thesis
  proof (cases "\<bar>i\<bar> \<le> 1")
    case True
    then have "nat \<bar>i\<bar> = 0 \<or> nat \<bar>i\<bar> = Suc 0" by auto
    then have "nLogScale ! nat \<bar>i\<bar> = 0" by (auto simp: nLogScale_0 nLogScale_1)
    with True small show ?thesis by (simp add: val)
  next
    case False
    then have "2 \<le> nat \<bar>i\<bar>" "nat \<bar>i\<bar> < 33" using b by auto
    from nLogScale_mono [OF this] have "6 \<le> nLogScale ! nat \<bar>i\<bar>" by (simp add: nLogScale_2)
    with False small show ?thesis by (simp add: val)
  qed
qed

lemma curve_lin_zero_iff: "joystickCurve False raw = 0 \<longleftrightarrow> \<bar>raw\<bar> < 10"
proof -
  define c where "c = (if raw < 0 then max raw (- 127) else min raw 127)"
  have cv: "joystickCurve False raw = (if \<bar>c\<bar> < 10 then 0 else cdiv (c * 100) 127)"
    by (simp add: curve_lin Let_def c_def)
  have ac: "\<bar>c\<bar> = min \<bar>raw\<bar> 127" by (auto simp: c_def)
  then have small: "\<bar>c\<bar> < 10 \<longleftrightarrow> \<bar>raw\<bar> < 10" by (auto simp: min_def)
  show ?thesis
  proof (cases "\<bar>c\<bar> < 10")
    case True
    with small show ?thesis by (simp add: cv)
  next
    case False
    then have "10 * 100 \<le> \<bar>c\<bar> * 100" by simp
    then have "(10 * 100) div 127 \<le> (\<bar>c\<bar> * 100) div 127" by (rule zdiv_mono1) simp
    then have "7 \<le> \<bar>cdiv (c * 100) 127\<bar>" by (simp add: abs_cdiv abs_mult)
    then have "cdiv (c * 100) 127 \<noteq> 0" by auto
    with False small show ?thesis by (simp add: cv)
  qed
qed

text \<open>
  C10. In logarithmic mode every axis reading with \<open>\<bar>raw\<bar> \<le> 7\<close> gives exactly 0, whatever
  \<open>nMaxPower\<close> is: such a reading falls in table entry 0 or 1, and both entries are 0.
  With the default \<open>nMaxPower\<close> these are the only readings that give 0, so the dead band
  of logarithmic mode is \<open>\<bar>raw\<bar> \<le> 7\<close>, whereas the dead band of linear mode is
  \<open>\<bar>raw\<bar> < 10\<close>.
\<close>

theorem scaleJoystick_dead_bands:
  "(\<bar>raw\<bar> \<le> 7 \<longrightarrow> scaleJoystick True raw nMaxPower = 0) \<and>
   (scaleJoystick True raw kMaximumPowerLevel = 0 \<longleftrightarrow> \<bar>raw\<bar> \<le> 7) \<and>
   (scaleJoystick False raw kMaximumPowerLevel = 0 \<longleftrightarrow> \<bar>raw\<bar> < 10)"
proof (intro conjI impI)
  assume "\<bar>raw\<bar> \<le> 7"
  then have "joystickCurve True raw = 0" by (simp add: curve_log_zero_iff)
  then show "scaleJoystick True raw nMaxPower = 0"
    by (simp add: scaleJoystick_stages cdiv_def)
next
  show "scaleJoystick True raw kMaximumPowerLevel = 0 \<longleftrightarrow> \<bar>raw\<bar> \<le> 7"
    using curve_log_zero_iff [of raw] by (simp only: joystickCurve_def)
next
  show "scaleJoystick False raw kMaximumPowerLevel = 0 \<longleftrightarrow> \<bar>raw\<bar> < 10"
    using curve_lin_zero_iff [of raw] by (simp only: joystickCurve_def)
qed

theorem scaleJoystick_dead_bands_witness:
  "\<bar>7 :: int\<bar> \<le> 7 \<and> scaleJoystick True 7 50 = 0 \<and> scaleJoystick True (- 7) kMaximumPowerLevel = 0 \<and>
   scaleJoystick True 8 kMaximumPowerLevel \<noteq> 0 \<and> scaleJoystick False 9 kMaximumPowerLevel = 0 \<and>
   scaleJoystick False 10 kMaximumPowerLevel \<noteq> 0"
  using scaleJoystick_dead_bands [of 7 50] scaleJoystick_dead_bands [of "- 7"]
    scaleJoystick_dead_bands [of 8] scaleJoystick_dead_bands [of 9] scaleJoystick_dead_bands [of 10]
  by simp

section \<open>Properties of \<open>cap100\<close>, \<open>spin\<close> and \<open>moveRobot\<close>\<close>

lemma abs_cap100_le: "\<bar>cap100 v\<bar> \<le> \<bar>v\<bar>"
  by (simp add: cap100_def)

lemma cap100_range: "- 100 \<le> cap100 v \<and> cap100 v \<le> 100"
  by (simp add: cap100_def)

lemma cap100_id: "cap100 v = v \<longleftrightarrow> - 100 \<le> v \<and> v \<le> 100"
  by (auto simp: cap100_def)

text \<open>
  C3, as stated: for every integer \<open>s\<close>, \<open>spin(s)\<close> sets the four wheel motors to
  \<open>cap100 s\<close>. This fails: \<open>spin\<close> stores its argument and never calls \<open>cap100\<close>, so
  \<open>spin(200)\<close> leaves 200 in \<open>motor[motorNW]\<close>, while \<open>cap100 200\<close> is 100.
\<close>

theorem spin_uncapped_counterexample:
  "motor (spin 200 (world0 (sconst 0) (sconst 0))) motorNW \<noteq> cap100 200"
  by (simp add: spin_def setMotor_def cap100_def)

text \<open>
  C3, amended: for every integer \<open>s\<close>, \<open>spin(s)\<close> sets the four wheel motors (NW, NE, SE,
  SW) to the identical value \<open>s\<close> itself and leaves the arm motor alone; the stored
  value equals \<open>cap100 s\<close> exactly when \<open>s\<close> lies in \<open>[-100, 100]\<close>, the range that the
  comment on \<open>spin\<close> asks of its callers.
\<close>

theorem spin_sets_wheels:
  "(\<forall>p. p \<noteq> motorArm \<longrightarrow> motor (spin s w) p = s) \<and>
   motor (spin s w) motorArm = motor w motorArm \<and>
   - 100 \<le> cap100 s \<and> cap100 s \<le> 100 \<and>
   (cap100 s = s \<longleftrightarrow> - 100 \<le> s \<and> s \<le> 100)"
  by (simp add: motor_spin cap100_id cap100_range)

theorem spin_sets_wheels_witness:
  "motor (spin 50 (world0 (sconst 0) (sconst 0))) motorNW = 50 \<and>
   motor (spin 50 (world0 (sconst 0) (sconst 0))) motorNE = 50 \<and>
   motor (spin 50 (world0 (sconst 0) (sconst 0))) motorSE = 50 \<and>
   motor (spin 50 (world0 (sconst 0) (sconst 0))) motorSW = 50 \<and>
   cap100 50 = 50"
  using spin_sets_wheels [of 50 "world0 (sconst 0) (sconst 0)"] by simp

lemma abs_float_to_int: "\<bar>real_of_int (float_to_int r)\<bar> \<le> \<bar>r\<bar>"
proof (cases "r \<ge> 0")
  case True
  then have "0 \<le> \<lfloor>r\<rfloor>" by simp
  moreover have "real_of_int \<lfloor>r\<rfloor> \<le> r" by simp
  ultimately show ?thesis using True by (simp add: float_to_int_def)
next
  case False
  then have "\<lceil>r\<rceil> \<le> 0" by (simp add: ceiling_le_zero)
  moreover have "r \<le> real_of_int \<lceil>r\<rceil>" by simp
  ultimately show ?thesis using False by (simp add: float_to_int_def)
qed

lemma capped_speed_le: "\<bar>real_of_int (cap100 (float_to_int speed))\<bar> \<le> \<bar>speed\<bar>"
proof -
  have "\<bar>real_of_int (cap100 (float_to_int speed))\<bar> \<le> \<bar>real_of_int (float_to_int speed)\<bar>"
    using abs_cap100_le [of "float_to_int speed"] by linarith
  also have "\<dots> \<le> \<bar>speed\<bar>" by (rule abs_float_to_int)
  finally show ?thesis .
qed

lemma mix_bound:
  fixes c s m a b :: real
  assumes "\<bar>c\<bar> \<le> 1" "\<bar>s\<bar> \<le> 1" "\<bar>a\<bar> = 1" "\<bar>b\<bar> = 1"
  shows "\<bar>real_of_int (float_to_int ((a * (c * m) + b * (s * m)) / 2))\<bar> \<le> \<bar>m\<bar>"
proof -
  have x: "\<bar>c * m\<bar> \<le> \<bar>m\<bar>" using assms(1) by (simp add: abs_mult mult_left_le_one_le)
  have y: "\<bar>s * m\<bar> \<le> \<bar>m\<bar>" using assms(2) by (simp add: abs_mult mult_left_le_one_le)
  have "\<bar>a * (c * m) + b * (s * m)\<bar> \<le> \<bar>a * (c * m)\<bar> + \<bar>b * (s * m)\<bar>" by (rule abs_triangle_ineq)
  also have "\<dots> = \<bar>c * m\<bar> + \<bar>s * m\<bar>" using assms(3,4) by (simp add: abs_mult)
  also have "\<dots> \<le> 2 * \<bar>m\<bar>" using x y by linarith
  finally have "\<bar>(a * (c * m) + b * (s * m)) / 2\<bar> \<le> \<bar>m\<bar>" by simp
  with abs_float_to_int [of "(a * (c * m) + b * (s * m)) / 2"] show ?thesis by linarith
qed

lemma moveRobot_motors:
  "motor (moveRobot cosDegrees sinDegrees speed angle w) =
    (let m = real_of_int (cap100 (float_to_int speed));
         x = cosDegrees angle * m; y = sinDegrees angle * m
     in (motor w)
          (motorNW := float_to_int ((- x - y) / 2),
           motorNE := float_to_int ((- x + y) / 2),
           motorSE := float_to_int ((x + y) / 2),
           motorSW := float_to_int ((x - y) / 2)))"
  by (simp add: moveRobot_def setMotor_def Let_def)

text \<open>
  C6. Each of the four wheel values that \<open>moveRobot\<close> writes (NW, NE, SE, SW) has
  absolute value at most \<open>\<bar>speed\<bar>\<close>. This needs only that the values of \<open>cosDegrees\<close>
  and \<open>sinDegrees\<close> at the given angle lie in \<open>[-1, 1]\<close>; it holds for every speed and
  every angle, so in particular for speeds in \<open>[-100, 100]\<close> and headings in
  \<open>[0, 360)\<close>. The arithmetic is that of the real numbers.
\<close>

theorem moveRobot_wheels_bounded:
  assumes "\<bar>cosDegrees angle\<bar> \<le> 1" "\<bar>sinDegrees angle\<bar> \<le> 1"
  shows "\<forall>p\<in>{motorNW, motorNE, motorSE, motorSW}.
           \<bar>real_of_int (motor (moveRobot cosDegrees sinDegrees speed angle w) p)\<bar> \<le> \<bar>speed\<bar>"
proof -
  define m where "m = real_of_int (cap100 (float_to_int speed))"
  have m: "\<bar>m\<bar> \<le> \<bar>speed\<bar>" unfolding m_def by (rule capped_speed_le)
  have nw: "\<bar>real_of_int (float_to_int ((- (cosDegrees angle * m) - sinDegrees angle * m) / 2))\<bar> \<le> \<bar>m\<bar>"
    using mix_bound [OF assms, of "- 1" "- 1" m] by simp
  have ne: "\<bar>real_of_int (float_to_int ((- (cosDegrees angle * m) + sinDegrees angle * m) / 2))\<bar> \<le> \<bar>m\<bar>"
    using mix_bound [OF assms, of "- 1" 1 m] by simp
  have se: "\<bar>real_of_int (float_to_int ((cosDegrees angle * m + sinDegrees angle * m) / 2))\<bar> \<le> \<bar>m\<bar>"
    using mix_bound [OF assms, of 1 1 m] by simp
  have sw: "\<bar>real_of_int (float_to_int ((cosDegrees angle * m - sinDegrees angle * m) / 2))\<bar> \<le> \<bar>m\<bar>"
    using mix_bound [OF assms, of 1 "- 1" m] by simp
  show ?thesis
    using nw ne se sw m by (simp add: moveRobot_motors Let_def m_def [symmetric])
qed

theorem moveRobot_wheels_bounded_witness:
  "\<bar>cosDeg 0\<bar> \<le> 1 \<and> \<bar>sinDeg 0\<bar> \<le> 1 \<and>
   \<bar>real_of_int (motor (moveRobot cosDeg sinDeg 100 0 (world0 (sconst 0) (sconst 0))) motorNW)\<bar>
     \<le> \<bar>100\<bar> \<and>
   \<bar>real_of_int (motor (moveRobot cosDeg sinDeg 100 0 (world0 (sconst 0) (sconst 0))) motorNE)\<bar>
     \<le> \<bar>100\<bar> \<and>
   \<bar>real_of_int (motor (moveRobot cosDeg sinDeg 100 0 (world0 (sconst 0) (sconst 0))) motorSE)\<bar>
     \<le> \<bar>100\<bar> \<and>
   \<bar>real_of_int (motor (moveRobot cosDeg sinDeg 100 0 (world0 (sconst 0) (sconst 0))) motorSW)\<bar>
     \<le> \<bar>100\<bar>"
proof -
  have trig: "\<bar>cosDeg 0\<bar> \<le> 1" "\<bar>sinDeg 0\<bar> \<le> 1"
    by (simp_all add: cosDeg_def sinDeg_def)
  from trig moveRobot_wheels_bounded [of cosDeg 0 sinDeg 100 "world0 (sconst 0) (sconst 0)"]
  show ?thesis by simp
qed

text \<open>The run of the witness: due East at full speed gives \<open>-50, -50, 50, 50\<close>.\<close>

lemma moveRobot_east:
  "map (motor (moveRobot cosDeg sinDeg 100 0 (world0 (sconst 0) (sconst 0))))
     [motorNW, motorNE, motorSE, motorSW] = [- 50, - 50, 50, 50]"
  by (simp add: moveRobot_motors cosDeg_def sinDeg_def cap100_def float_to_int_def)

section \<open>Properties of \<open>turnToHeading\<close>\<close>

text \<open>
  The two program points, unfolded once: the start of a call, and the test of the loop.
\<close>

lemma turnToHeading_entry:
  "turnToHeading heading speed w =
     (if speed > 100 then Some (False, w)
      else turnToHeading_loop heading speed (fst (HTMCreadHeading w)) 0 (snd (HTMCreadHeading w)))"
  unfolding turnToHeading_def turnToHeading_loop_def
  by (subst turnToHeading_from.simps) (simp add: Let_def case_prod_unfold)

lemma turnToHeading_loop_poll:
  "turnToHeading_loop heading speed lastReading numReadings w =
     (if heading \<noteq> shd (sensorCompass w) then
        (if (if shd (sensorCompass w) = lastReading then numReadings + 1 else 0) > 5
         then turnToHeading heading (speed + 10) (spin 0 (pollMiss heading w))
         else turnToHeading_loop heading speed (shd (sensorCompass w))
                (if shd (sensorCompass w) = lastReading then numReadings + 1 else 0)
                (pollMiss heading w))
      else Some (True, snd (HTMCreadHeading w)))"
  unfolding turnToHeading_def turnToHeading_loop_def pollMiss_def
  by (subst turnToHeading_from.simps) (simp add: Let_def HTMCreadHeading_def split: prod.split)

lemma sensorCompass_pollMiss [simp]: "sensorCompass (pollMiss h w) = stl (sensorCompass w)"
  by (simp add: pollMiss_def)

lemma sensorCompass_pollMiss_funpow:
  "sensorCompass ((pollMiss h ^^ k) w) = sdrop k (sensorCompass w)"
  by (induction k arbitrary: w) (simp_all add: funpow_swap1)

lemma motor_pollMiss:
  "motor (pollMiss heading w) p = (if p = motorArm then motor w p else int32 (20 * heading))"
  by (simp add: pollMiss_def wait10Msec_def motor_spin HTMCreadHeading_def)

lemma events_pollMiss:
  "events (pollMiss heading w) =
     events w @ [ReadHeading (shd (sensorCompass w)),
       SetMotor motorSW (int32 (20 * heading)), SetMotor motorSE (int32 (20 * heading)),
       SetMotor motorNE (int32 (20 * heading)), SetMotor motorNW (int32 (20 * heading)),
       Wait 10]"
  by (simp add: pollMiss_def wait10Msec_def spin_def setMotor_def HTMCreadHeading_def)

text \<open>
  C2. For every target heading and every speed strictly greater than 100,
  \<open>turnToHeading\<close> returns \<open>false\<close> at once. The state it returns is the state it was
  given: the compass trace has not moved (no sensor read), no motor has been written,
  and no hardware access has been recorded (no call of \<open>spin\<close>).
\<close>

theorem turnToHeading_speed_cap:
  "speed > 100 \<Longrightarrow> turnToHeading heading speed w = Some (False, w)"
  by (simp add: turnToHeading_entry)

theorem turnToHeading_speed_cap_witness:
  "(110::int) > 100 \<and>
   turnToHeading 90 110 (world0 (sconst 0) (sconst 0)) = Some (False, world0 (sconst 0) (sconst 0))"
  using turnToHeading_speed_cap [of 110 90 "world0 (sconst 0) (sconst 0)"] by simp

text \<open>
  The wrap-around is the identity on the range of an \<open>int\<close>, so \<open>20 * heading\<close> is the
  product itself for headings from \<open>-107374182\<close> to \<open>107374182\<close>; outside it wraps.
\<close>

lemma int32_id: "- 2147483648 \<le> x \<Longrightarrow> x \<le> 2147483647 \<Longrightarrow> int32 x = x"
  by (simp add: int32_def)

lemma int32_spin_value:
  "- 107374182 \<le> heading \<Longrightarrow> heading \<le> 107374182 \<Longrightarrow> int32 (20 * heading) = 20 * heading"
  by (rule int32_id) simp_all

lemma int32_spin_value_wraps: "int32 (20 * 200000000) = - 294967296"
  by (simp add: int32_def)

lemma motor_read [simp]: "motor (snd (HTMCreadHeading w)) = motor w"
  by (simp add: HTMCreadHeading_def)

lemma events_pollMiss_pollEvents:
  "events (pollMiss heading w) =
     events w @ pollEvents (shd (sensorCompass w)) (int32 (20 * heading))"
  by (simp add: events_pollMiss pollEvents_def)

lemma events_spin:
  "events (spin v w) =
     events w @ [SetMotor motorSW v, SetMotor motorSE v, SetMotor motorNE v, SetMotor motorNW v]"
  by (simp add: spin_def setMotor_def)

lemma events_pollMiss_funpow:
  "events ((pollMiss heading ^^ k) w) =
     events w @ concat (map (\<lambda>r. pollEvents r (int32 (20 * heading))) (stake k (sensorCompass w)))"
proof (induction k arbitrary: w)
  case 0
  show ?case by simp
next
  case (Suc k)
  have "events ((pollMiss heading ^^ Suc k) w) = events ((pollMiss heading ^^ k) (pollMiss heading w))"
    by (simp only: funpow_Suc_right o_apply)
  then show ?case
    by (simp add: Suc.IH events_pollMiss_pollEvents)
qed

lemma motor_pollMiss_funpow:
  "p \<noteq> motorArm \<Longrightarrow> motor ((pollMiss heading ^^ Suc k) w) p = int32 (20 * heading)"
  by (simp add: motor_pollMiss)

text \<open>A run that returns has only added hardware accesses to those made before it.\<close>

lemma events_extend:
  assumes "turnToHeading_from pt0 w0 = Some y0"
  shows "\<exists>es. events (snd y0) = events w0 @ es"
proof (rule turnToHeading_from.raw_induct
    [where P = "\<lambda>pt (w :: world) y. \<exists>es. events (snd y) = events w @ es", OF _ assms])
  fix f :: "turnPoint \<Rightarrow> world \<Rightarrow> (bool \<times> world) option" and pt and w :: world and y
  assume IH: "\<And>pt w y. f pt w = Some y \<Longrightarrow> \<exists>es. events (snd y) = events w @ es"
  assume hyps: "(case pt of
       AtEntry heading speed \<Rightarrow>
         if speed > 100 then Some (False, w)
         else
           (let (startAngle, w) = HTMCreadHeading w;
                lastReading = startAngle;
                direction = (if crem (int32 (heading - startAngle)) 360 > 180 then 1 else - 1 :: int);
                numReadings = 0
            in f (AtLoop heading speed lastReading numReadings) w)
     | AtLoop heading speed lastReading numReadings \<Rightarrow>
         (let (currentReading, w) = HTMCreadHeading w
          in if heading \<noteq> currentReading then
               (let w = spin (int32 (20 * heading)) w;
                    w = wait10Msec 1 w;
                    numReadings =
                      (if currentReading = lastReading then numReadings + 1 else 0)
                in if numReadings > 5 then
                     (let w = spin 0 w
                      in f (AtEntry heading (speed + 10)) w)
                   else
                     (let lastReading = currentReading
                      in f (AtLoop heading speed lastReading numReadings) w))
             else Some (True, w))) = Some y"
  show "\<exists>es. events (snd y) = events w @ es"
  proof (cases pt)
    case (AtEntry heading speed)
    show ?thesis
    proof (cases "speed > 100")
      case True
      with AtEntry hyps have "y = (False, w)" by simp
      then show ?thesis by simp
    next
      case False
      with AtEntry hyps have
        "f (AtLoop heading speed (shd (sensorCompass w)) 0) (snd (HTMCreadHeading w)) = Some y"
        by (simp add: Let_def case_prod_unfold)
      from IH [OF this] show ?thesis by auto
    qed
  next
    case (AtLoop heading speed lastReading numReadings)
    let ?r = "shd (sensorCompass w)"
    let ?n = "if ?r = lastReading then numReadings + 1 else 0"
    show ?thesis
    proof (cases "heading = ?r")
      case True
      with AtLoop hyps have "y = (True, snd (HTMCreadHeading w))"
        by (auto simp: Let_def case_prod_unfold)
      then show ?thesis by simp
    next
      case False
      show ?thesis
      proof (cases "?n > 5")
        case True
        with False AtLoop hyps have
          "f (AtEntry heading (speed + 10)) (spin 0 (pollMiss heading w)) = Some y"
          by (auto simp: Let_def pollMiss_def case_prod_unfold split: if_splits)
        from IH [OF this] show ?thesis
          by (auto simp: events_spin events_pollMiss_pollEvents)
      next
        case n: False
        with False AtLoop hyps have
          "f (AtLoop heading speed ?r ?n) (pollMiss heading w) = Some y"
          by (auto simp: Let_def pollMiss_def case_prod_unfold split: if_splits)
        from IH [OF this] show ?thesis
          by (auto simp: events_pollMiss_pollEvents)
      qed
    qed
  qed
qed

text \<open>
  Every run from a test of the loop that returns, and whose poll there misses the
  target, has made the accesses of that iteration right after those made before.
\<close>

lemma loop_miss_events:
  assumes "shd (sensorCompass w) \<noteq> heading"
    and "turnToHeading_loop heading speed lastReading numReadings w = Some (b, w')"
  shows "\<exists>es. events w' =
           events w @ pollEvents (shd (sensorCompass w)) (int32 (20 * heading)) @ es"
proof -
  let ?n = "if shd (sensorCompass w) = lastReading then numReadings + 1 else 0"
  show ?thesis
  proof (cases "?n > 5")
    case True
    with assms have
      "turnToHeading_from (AtEntry heading (speed + 10)) (spin 0 (pollMiss heading w)) = Some (b, w')"
      by (subst (asm) turnToHeading_loop_poll) (simp add: turnToHeading_def)
    from events_extend [OF this] show ?thesis
      by (auto simp: events_spin events_pollMiss_pollEvents)
  next
    case False
    with assms have
      "turnToHeading_from (AtLoop heading speed (shd (sensorCompass w)) ?n) (pollMiss heading w) =
         Some (b, w')"
      by (subst (asm) turnToHeading_loop_poll) (simp add: turnToHeading_loop_def)
    from events_extend [OF this] show ?thesis
      by (auto simp: events_pollMiss_pollEvents)
  qed
qed

text \<open>
  Up to five polls that miss cannot complete a stall; if the next poll reads the target,
  the run returns \<open>true\<close> in the state reached by these iterations and the last read.
\<close>

lemma loop_misses_then_hit:
  "0 \<le> numReadings \<Longrightarrow> numReadings + int k \<le> 5 \<Longrightarrow>
   \<forall>j<k. sensorCompass w !! j \<noteq> heading \<Longrightarrow> sensorCompass w !! k = heading \<Longrightarrow>
   turnToHeading_loop heading speed lastReading numReadings w =
     Some (True, snd (HTMCreadHeading ((pollMiss heading ^^ k) w)))"
proof (induction k arbitrary: lastReading numReadings w)
  case 0
  then show ?case by (subst turnToHeading_loop_poll) simp
next
  case (Suc k)
  let ?r = "shd (sensorCompass w)"
  let ?n = "if ?r = lastReading then numReadings + 1 else 0"
  from Suc.prems(3) have miss: "?r \<noteq> heading" by (auto dest: spec [of _ 0])
  have n: "0 \<le> ?n" "?n + int k \<le> 5" "\<not> ?n > 5" using Suc.prems(1,2) by auto
  have tl: "\<forall>j<k. sensorCompass (pollMiss heading w) !! j \<noteq> heading"
    using Suc.prems(3) by auto
  have hit: "sensorCompass (pollMiss heading w) !! k = heading"
    using Suc.prems(4) by simp
  have "turnToHeading_loop heading speed lastReading numReadings w =
        turnToHeading_loop heading speed ?r ?n (pollMiss heading w)"
    using miss n(3) by (subst turnToHeading_loop_poll) auto
  also have "\<dots> = Some (True, snd (HTMCreadHeading ((pollMiss heading ^^ k) (pollMiss heading w))))"
    by (rule Suc.IH [OF n(1) n(2) tl hit])
  finally show ?case by (simp only: funpow_Suc_right o_apply)
qed

lemma entry_misses_then_hit:
  assumes "speed \<le> 100" "k \<le> 5" "\<forall>j<k. sensorCompass w !! Suc j \<noteq> heading"
    "sensorCompass w !! Suc k = heading"
  shows "turnToHeading heading speed w =
     Some (True, snd (HTMCreadHeading ((pollMiss heading ^^ k) (snd (HTMCreadHeading w)))))"
proof -
  have "turnToHeading heading speed w =
        turnToHeading_loop heading speed (shd (sensorCompass w)) 0 (snd (HTMCreadHeading w))"
    using assms(1) by (subst turnToHeading_entry) simp
  also have "\<dots> = Some (True, snd (HTMCreadHeading
        ((pollMiss heading ^^ k) (snd (HTMCreadHeading w)))))"
    by (rule loop_misses_then_hit) (use assms in simp_all)
  finally show ?thesis .
qed

text \<open>
  C4. Let the target heading be one whose product with 20 is an \<open>int\<close>
  (\<open>-107374182 \<le> heading \<le> 107374182\<close>, which contains \<open>[0, 360)\<close>).
  \<^item> Whatever the reading, the previous reading, the count and \<open>speed\<close> are: every run
    from a test of the loop that returns, and whose poll there does not read the
    target, has recorded, right after the accesses made before, the sensor read, the
    four motor writes of \<open>spin\<close> with the value \<open>20 * heading\<close>, and the wait of 10 ms.
    Each iteration of a returning run is the first iteration of the run from its own
    test of the loop, so this covers every iteration.
  \<^item> Such runs exist and are pinned: a call with \<open>speed \<le> 100\<close> whose first \<open>k \<le> 5\<close>
    polls miss the target and whose next poll reads it returns \<open>true\<close>; the accesses it
    has recorded are the read of the start angle, then for each missed poll the read,
    the four writes of \<open>20 * heading\<close> and the wait, then the read of the target; and
    when at least one poll missed, the four wheel motors hold \<open>20 * heading\<close> on return.
  The commanded value comes from the target heading alone, not from the distance
  between the reading and the target.
\<close>

theorem turnToHeading_loop_spin_command:
  assumes "- 107374182 \<le> heading" and "heading \<le> 107374182"
  shows
   "(shd (sensorCompass w) \<noteq> heading \<and>
     turnToHeading_loop heading speed lastReading numReadings w = Some (b, w') \<longrightarrow>
       (\<exists>es. events w' =
          events w @ pollEvents (shd (sensorCompass w)) (20 * heading) @ es)) \<and>
    (speed \<le> 100 \<and> k \<le> 5 \<and> (\<forall>j<k. sensorCompass w !! Suc j \<noteq> heading) \<and>
     sensorCompass w !! Suc k = heading \<longrightarrow>
       (\<exists>w1. turnToHeading heading speed w = Some (True, w1) \<and>
          events w1 =
            events w @ [ReadHeading (shd (sensorCompass w))] @
            concat (map (\<lambda>r. pollEvents r (20 * heading)) (stake k (stl (sensorCompass w)))) @
            [ReadHeading heading] \<and>
          (0 < k \<longrightarrow> (\<forall>p. p \<noteq> motorArm \<longrightarrow> motor w1 p = 20 * heading))))"
proof (intro conjI impI)
  note v = int32_spin_value [OF assms]
  assume "shd (sensorCompass w) \<noteq> heading \<and>
     turnToHeading_loop heading speed lastReading numReadings w = Some (b, w')"
  then show "\<exists>es. events w' =
          events w @ pollEvents (shd (sensorCompass w)) (20 * heading) @ es"
    using loop_miss_events [of w heading speed lastReading numReadings b w'] by (simp add: v)
next
  note v = int32_spin_value [OF assms]
  assume h: "speed \<le> 100 \<and> k \<le> 5 \<and> (\<forall>j<k. sensorCompass w !! Suc j \<noteq> heading) \<and>
     sensorCompass w !! Suc k = heading"
  let ?w1 = "snd (HTMCreadHeading ((pollMiss heading ^^ k) (snd (HTMCreadHeading w))))"
  have run: "turnToHeading heading speed w = Some (True, ?w1)"
    by (rule entry_misses_then_hit) (use h in simp_all)
  have last: "shd (sdrop k (stl (sensorCompass w))) = heading"
    using h by (simp add: sdrop_simps(1))
  have ev: "events ?w1 =
            events w @ [ReadHeading (shd (sensorCompass w))] @
            concat (map (\<lambda>r. pollEvents r (20 * heading)) (stake k (stl (sensorCompass w)))) @
            [ReadHeading heading]"
    using last by (simp add: events_pollMiss_funpow sensorCompass_pollMiss_funpow v)
  have mo: "0 < k \<longrightarrow> (\<forall>p. p \<noteq> motorArm \<longrightarrow> motor ?w1 p = 20 * heading)"
  proof (intro impI allI)
    fix p assume "0 < k" "p \<noteq> motorArm"
    then obtain k' where "k = Suc k'" by (cases k) auto
    with \<open>p \<noteq> motorArm\<close> show "motor ?w1 p = 20 * heading"
      using motor_pollMiss_funpow [where p = p and heading = heading and k = k'
          and w = "snd (HTMCreadHeading w)"]
        by (simp add: v)
  qed
  from run ev mo show "\<exists>w1. turnToHeading heading speed w = Some (True, w1) \<and>
          events w1 =
            events w @ [ReadHeading (shd (sensorCompass w))] @
            concat (map (\<lambda>r. pollEvents r (20 * heading)) (stake k (stl (sensorCompass w)))) @
            [ReadHeading heading] \<and>
          (0 < k \<longrightarrow> (\<forall>p. p \<noteq> motorArm \<longrightarrow> motor w1 p = 20 * heading))"
    by blast
qed

text \<open>
  The witness runs target 90 on the trace 10, 20, 90, ...: the start angle is 10, the
  first poll reads 20 and misses, the second reads 90. Both runs return \<open>true\<close>, and
  1800 has been written to the four wheels.
\<close>

theorem turnToHeading_loop_spin_command_witness:
  "- 107374182 \<le> (90::int) \<and> (90::int) \<le> 107374182 \<and>
   turnToHeading_loop 90 20 10 0 (world0 (20 ## sconst 90) (sconst 0)) =
     Some (True, snd (HTMCreadHeading (pollMiss 90 (world0 (20 ## sconst 90) (sconst 0))))) \<and>
   (\<exists>es. events (snd (HTMCreadHeading (pollMiss 90 (world0 (20 ## sconst 90) (sconst 0))))) =
      [ReadHeading 20, SetMotor motorSW 1800, SetMotor motorSE 1800, SetMotor motorNE 1800,
       SetMotor motorNW 1800, Wait 10] @ es) \<and>
   (\<exists>w1. turnToHeading 90 20 (world0 (10 ## 20 ## sconst 90) (sconst 0)) = Some (True, w1) \<and>
      events w1 =
        [ReadHeading 10, ReadHeading 20, SetMotor motorSW 1800, SetMotor motorSE 1800,
         SetMotor motorNE 1800, SetMotor motorNW 1800, Wait 10, ReadHeading 90] \<and>
      motor w1 motorNW = 1800 \<and> motor w1 motorNE = 1800 \<and>
      motor w1 motorSE = 1800 \<and> motor w1 motorSW = 1800)"
proof -
  let ?wl = "world0 (20 ## sconst 90) (sconst 0)"
  let ?wl' = "snd (HTMCreadHeading (pollMiss 90 ?wl))"
  let ?we = "world0 (10 ## 20 ## sconst 90) (sconst 0)"
  have range: "- 107374182 \<le> (90::int)" "(90::int) \<le> 107374182" by simp_all
  have miss: "shd (sensorCompass ?wl) \<noteq> 90" by simp
  have loop_run: "turnToHeading_loop 90 20 10 0 ?wl = Some (True, ?wl')"
    by (simp add: turnToHeading_loop_poll)
  have entry_hyp: "(20::int) \<le> 100 \<and> (1::nat) \<le> 5 \<and>
      (\<forall>j<1. sensorCompass ?we !! Suc j \<noteq> 90) \<and> sensorCompass ?we !! Suc 1 = 90"
    by simp
  from miss loop_run
    turnToHeading_loop_spin_command [OF range, where w = ?wl and speed = 20
      and lastReading = 10 and numReadings = 0 and b = True and w' = ?wl', THEN conjunct1]
  have a: "\<exists>es. events ?wl' =
      [ReadHeading 20, SetMotor motorSW 1800, SetMotor motorSE 1800, SetMotor motorNE 1800,
       SetMotor motorNW 1800, Wait 10] @ es"
    by (simp add: pollEvents_def)
  from entry_hyp
    turnToHeading_loop_spin_command [OF range, where speed = 20 and k = 1 and w = ?we,
      THEN conjunct2]
  obtain w1 where w1: "turnToHeading 90 20 ?we = Some (True, w1)"
    "events w1 = events ?we @ [ReadHeading (shd (sensorCompass ?we))] @
       concat (map (\<lambda>r. pollEvents r (20 * 90)) (stake 1 (stl (sensorCompass ?we)))) @
       [ReadHeading 90]"
    "\<forall>p. p \<noteq> motorArm \<longrightarrow> motor w1 p = 20 * 90"
    by blast
  from w1(2) have ev: "events w1 =
        [ReadHeading 10, ReadHeading 20, SetMotor motorSW 1800, SetMotor motorSE 1800,
         SetMotor motorNE 1800, SetMotor motorNW 1800, Wait 10, ReadHeading 90]"
    by (simp add: pollEvents_def)
  from w1(3) have mo: "motor w1 motorNW = 1800 \<and> motor w1 motorNE = 1800 \<and>
      motor w1 motorSE = 1800 \<and> motor w1 motorSW = 1800"
    by simp
  from range loop_run a w1(1) ev mo show ?thesis by blast
qed

lemma loop_frozen_aux:
  "6 - numReadings = int k \<Longrightarrow> 0 \<le> numReadings \<Longrightarrow> numReadings \<le> 5 \<Longrightarrow>
   lastReading \<noteq> heading \<Longrightarrow> \<forall>j<k. sensorCompass w !! j = lastReading \<Longrightarrow>
   turnToHeading_loop heading speed lastReading numReadings w =
     turnToHeading heading (speed + 10) (spin 0 ((pollMiss heading ^^ k) w))"
proof (induction k arbitrary: numReadings w)
  case 0
  then show ?case by simp
next
  case (Suc k)
  from Suc.prems(5) have hd: "shd (sensorCompass w) = lastReading"
    by (auto dest: spec [of _ 0])
  show ?case
  proof (cases "numReadings = 5")
    case True
    with Suc.prems have "k = 0" by simp
    with True hd Suc.prems show ?thesis
      by (subst turnToHeading_loop_poll) simp
  next
    case False
    with Suc.prems have n: "numReadings + 1 \<le> 5" "6 - (numReadings + 1) = int k" by simp_all
    have tl: "\<forall>j<k. sensorCompass (pollMiss heading w) !! j = lastReading"
      using Suc.prems(5) by auto
    have "turnToHeading_loop heading speed lastReading numReadings w =
          turnToHeading_loop heading speed lastReading (numReadings + 1) (pollMiss heading w)"
      using hd Suc.prems n by (subst turnToHeading_loop_poll) simp
    also have "\<dots> = turnToHeading heading (speed + 10)
                      (spin 0 ((pollMiss heading ^^ k) (pollMiss heading w)))"
      using Suc.IH [OF n(2) _ n(1) Suc.prems(4) tl] Suc.prems(2) by simp
    finally show ?thesis by (simp add: funpow_swap1)
  qed
qed

lemma loop_frozen:
  assumes "0 \<le> numReadings" "numReadings \<le> 5" "lastReading \<noteq> heading"
    "\<forall>j<nat (6 - numReadings). sensorCompass w !! j = lastReading"
  shows "turnToHeading_loop heading speed lastReading numReadings w =
     turnToHeading heading (speed + 10) (spin 0 ((pollMiss heading ^^ nat (6 - numReadings)) w))"
  by (rule loop_frozen_aux) (use assms in simp_all)

lemma entry_frozen:
  assumes "speed \<le> 100" "c \<noteq> heading" "\<forall>j<7. sensorCompass w !! j = c"
  shows "turnToHeading heading speed w = turnToHeading heading (speed + 10) (stallOnce heading w)"
proof -
  have 0: "shd (sensorCompass w) = c" using assms(3) by (auto dest: spec [of _ 0])
  have tl: "\<forall>j<6. sensorCompass (snd (HTMCreadHeading w)) !! j = c"
  proof (intro allI impI)
    fix j :: nat assume "j < 6"
    then have "Suc j < 7" by simp
    with assms(3) have "sensorCompass w !! Suc j = c" by blast
    then show "sensorCompass (snd (HTMCreadHeading w)) !! j = c" by simp
  qed
  have "turnToHeading heading speed w =
        turnToHeading_loop heading speed c 0 (snd (HTMCreadHeading w))"
    using assms(1) 0 by (subst turnToHeading_entry) simp
  also have "\<dots> = turnToHeading heading (speed + 10) (stallOnce heading w)"
    unfolding stallOnce_def
    using loop_frozen [of 0 c heading "snd (HTMCreadHeading w)" speed] assms(2) tl by simp
  finally show ?thesis .
qed

lemma sensorCompass_stallOnce: "sensorCompass (stallOnce h w) = sdrop 7 (sensorCompass w)"
  by (simp add: stallOnce_def sensorCompass_pollMiss_funpow eval_nat_numeral)

lemma motor_stallOnce: "motor (stallOnce heading w) p = (if p = motorArm then motor w p else 0)"
proof -
  have "motor ((pollMiss heading ^^ k) w') motorArm = motor w' motorArm" for k w'
    by (induction k) (simp_all add: motor_pollMiss)
  then show ?thesis
    by (simp add: stallOnce_def motor_spin HTMCreadHeading_def)
qed

lemma stalls_escalate:
  "\<forall>i<n. \<exists>c. c \<noteq> heading \<and> (\<forall>j<7. sensorCompass w !! (7 * i + j) = c) \<Longrightarrow>
   speed + 10 * int n \<le> 110 \<Longrightarrow>
   turnToHeading heading speed w =
     turnToHeading heading (speed + 10 * int n) ((stallOnce heading ^^ n) w)"
proof (induction n arbitrary: speed w)
  case 0
  then show ?case by simp
next
  case (Suc n)
  from Suc.prems(1) obtain c where c: "c \<noteq> heading" "\<forall>j<7. sensorCompass w !! j = c"
    by (auto dest: spec [of _ 0])
  have sp: "speed \<le> 100" using Suc.prems(2) by simp
  have blocks: "\<forall>i<n. \<exists>c. c \<noteq> heading \<and>
      (\<forall>j<7. sensorCompass (stallOnce heading w) !! (7 * i + j) = c)"
  proof (intro allI impI)
    fix i assume "i < n"
    then have "Suc i < Suc n" by simp
    with Suc.prems(1) obtain d where d: "d \<noteq> heading"
      "\<forall>j<7. sensorCompass w !! (7 * Suc i + j) = d" by blast
    have "\<forall>j<7. sensorCompass (stallOnce heading w) !! (7 * i + j) = d"
      using d(2) by (simp add: sensorCompass_stallOnce sdrop_snth add.assoc)
    with d(1) show "\<exists>c. c \<noteq> heading \<and>
      (\<forall>j<7. sensorCompass (stallOnce heading w) !! (7 * i + j) = c)" by blast
  qed
  have "turnToHeading heading speed w =
        turnToHeading heading (speed + 10) (stallOnce heading w)"
    by (rule entry_frozen [OF sp c])
  also have "\<dots> = turnToHeading heading (speed + 10 + 10 * int n)
                      ((stallOnce heading ^^ n) (stallOnce heading w))"
    by (rule Suc.IH [OF blocks]) (use Suc.prems(2) in simp)
  finally show ?case by (simp add: funpow_swap1 algebra_simps)
qed

text \<open>
  After \<open>n\<close> stalls on frozen blocks the trace has moved on by \<open>7 * n\<close> readings, and
  after at least one stall the four wheel motors hold 0.
\<close>

lemma sensorCompass_stallOnce_funpow:
  "sensorCompass ((stallOnce heading ^^ n) w) = sdrop (7 * n) (sensorCompass w)"
proof (induction n)
  case 0
  show ?case by simp
next
  case (Suc n)
  have "sensorCompass ((stallOnce heading ^^ Suc n) w) =
        sdrop 7 (sdrop (7 * n) (sensorCompass w))"
    by (simp only: funpow.simps o_apply sensorCompass_stallOnce Suc.IH)
  also have "\<dots> = sdrop (7 * Suc n) (sensorCompass w)"
    by (simp add: sdrop_add add.commute)
  finally show ?case .
qed

lemma motor_stallOnce_funpow:
  "p \<noteq> motorArm \<Longrightarrow> motor ((stallOnce heading ^^ Suc n) w) p = 0"
  by (simp add: motor_stallOnce)

text \<open>Iterations that miss never write 0 to a wheel when \<open>20 * heading\<close> is not 0.\<close>

lemma no_stop_in_misses:
  "int32 (20 * heading) \<noteq> 0 \<Longrightarrow> SetMotor motorNW 0 \<notin> set (events w) \<Longrightarrow>
   SetMotor motorNW 0 \<notin> set (events (snd (HTMCreadHeading ((pollMiss heading ^^ k) w))))"
  by (auto simp: events_pollMiss_funpow pollEvents_def)

text \<open>
  C1, as stated: whenever \<open>turnToHeading\<close> observes more than 5 consecutive identical
  readings while the target is not reached, it commands \<open>spin(0)\<close> and retries at
  \<open>speed + 10\<close>. This fails for six identical readings. The count \<open>numReadings\<close>
  compares each poll with the reading before it, so six equal readings are five
  repeats, and the test \<open>numReadings > 5\<close> needs six. In the first run below the start
  angle and five polls read 90 and the next poll reads the target 3; in the second the
  start angle is 1, six polls read 90 and the next reads 3. Both calls are made at
  speed 100, where a retry would be a call at 110 and would return \<open>false\<close>; both
  return \<open>true\<close>, and no write of 0 to a wheel motor has been recorded.
\<close>

theorem turnToHeading_six_equal_readings_counterexample:
  "turnToHeading 3 100 (world0 ([90, 90, 90, 90, 90, 90, 3] @- sconst 77) (sconst 0)) =
     Some (True, snd (HTMCreadHeading ((pollMiss 3 ^^ 5) (snd (HTMCreadHeading
       (world0 ([90, 90, 90, 90, 90, 90, 3] @- sconst 77) (sconst 0))))))) \<and>
   SetMotor motorNW 0 \<notin> set (events (snd (HTMCreadHeading ((pollMiss 3 ^^ 5)
     (snd (HTMCreadHeading
       (world0 ([90, 90, 90, 90, 90, 90, 3] @- sconst 77) (sconst 0)))))))) \<and>
   turnToHeading 3 100 (world0 ([1, 90, 90, 90, 90, 90, 90, 3] @- sconst 77) (sconst 0)) =
     Some (True, snd (HTMCreadHeading ((pollMiss 3 ^^ 6) (snd (HTMCreadHeading
       (world0 ([1, 90, 90, 90, 90, 90, 90, 3] @- sconst 77) (sconst 0))))))) \<and>
   SetMotor motorNW 0 \<notin> set (events (snd (HTMCreadHeading ((pollMiss 3 ^^ 6)
     (snd (HTMCreadHeading
       (world0 ([1, 90, 90, 90, 90, 90, 90, 3] @- sconst 77) (sconst 0))))))))"
proof -
  let ?a = "world0 ([90, 90, 90, 90, 90, 90, 3] @- sconst 77) (sconst 0)"
  let ?b = "world0 ([1, 90, 90, 90, 90, 90, 90, 3] @- sconst 77) (sconst 0)"
  have v: "int32 (20 * 3) \<noteq> 0" by (simp add: int32_def)
  have run_a: "turnToHeading 3 100 ?a =
      Some (True, snd (HTMCreadHeading ((pollMiss 3 ^^ 5) (snd (HTMCreadHeading ?a)))))"
    by (rule entry_misses_then_hit) (simp_all add: eval_nat_numeral less_Suc_eq)
  have quiet_a: "SetMotor motorNW 0 \<notin>
      set (events (snd (HTMCreadHeading ((pollMiss 3 ^^ 5) (snd (HTMCreadHeading ?a))))))"
    by (rule no_stop_in_misses [OF v]) simp
  let ?b1 = "pollMiss 3 (snd (HTMCreadHeading ?b))"
  have "turnToHeading 3 100 ?b = turnToHeading_loop 3 100 1 0 (snd (HTMCreadHeading ?b))"
    by (simp add: turnToHeading_entry)
  also have "\<dots> = turnToHeading_loop 3 100 90 0 ?b1"
    by (subst turnToHeading_loop_poll) simp
  also have "\<dots> = Some (True, snd (HTMCreadHeading ((pollMiss 3 ^^ 5) ?b1)))"
    by (rule loop_misses_then_hit) (simp_all add: eval_nat_numeral less_Suc_eq)
  also have "(pollMiss 3 ^^ 5) ?b1 = (pollMiss 3 ^^ 6) (snd (HTMCreadHeading ?b))"
    by (simp add: eval_nat_numeral funpow_swap1)
  finally have run_b: "turnToHeading 3 100 ?b =
      Some (True, snd (HTMCreadHeading ((pollMiss 3 ^^ 6) (snd (HTMCreadHeading ?b)))))" .
  have quiet_b: "SetMotor motorNW 0 \<notin>
      set (events (snd (HTMCreadHeading ((pollMiss 3 ^^ 6) (snd (HTMCreadHeading ?b))))))"
    by (rule no_stop_in_misses [OF v]) simp
  from run_a quiet_a run_b quiet_b show ?thesis by blast
qed

text \<open>
  C1, amended: the stall fires on six consecutive polls that each repeat the reading
  before them, that is, on seven equal readings in a row, the first of which is the
  start angle or an earlier poll. For every target, every speed and every trace:
  \<^item> from any test of the loop with a count between 0 and 5, if the next
    \<open>6 - numReadings\<close> polls all return \<open>lastReading\<close>, which is not the target, so that
    the count exceeds 5, then the call commands \<open>spin(0)\<close> and its result is that of
    \<open>turnToHeading(heading, speed + 10)\<close>, the same target, started in a state whose
    four wheel motors hold 0;
  \<^item> in particular a call with \<open>speed \<le> 100\<close> whose first seven readings (the start
    angle and six polls) are one value other than the target results in the one retry
    at \<open>speed + 10\<close>, started with the wheels at 0 and the trace moved on by seven;
  \<^item> starting from speed 60, if the trace begins with five such frozen blocks of seven
    readings, the speeds run 60, 70, 80, 90, 100, the sixth call is made with 110, and
    the whole call returns \<open>false\<close> after five stalls, with the four wheel motors at 0
    and exactly 35 readings consumed.
\<close>

theorem turnToHeading_stall_escalation:
  "(0 \<le> numReadings \<and> numReadings \<le> 5 \<and> lastReading \<noteq> heading \<and>
    (\<forall>j<nat (6 - numReadings). sensorCompass w !! j = lastReading) \<longrightarrow>
      turnToHeading_loop heading speed lastReading numReadings w =
        turnToHeading heading (speed + 10)
          (spin 0 ((pollMiss heading ^^ nat (6 - numReadings)) w)) \<and>
      (\<forall>p. p \<noteq> motorArm \<longrightarrow>
         motor (spin 0 ((pollMiss heading ^^ nat (6 - numReadings)) w)) p = 0)) \<and>
   (speed \<le> 100 \<and> c \<noteq> heading \<and> (\<forall>j<7. sensorCompass w !! j = c) \<longrightarrow>
      turnToHeading heading speed w =
        turnToHeading heading (speed + 10) (stallOnce heading w) \<and>
      (\<forall>p. p \<noteq> motorArm \<longrightarrow> motor (stallOnce heading w) p = 0) \<and>
      sensorCompass (stallOnce heading w) = sdrop 7 (sensorCompass w)) \<and>
   ((\<forall>i<5. \<exists>c. c \<noteq> heading \<and> (\<forall>j<7. sensorCompass w !! (7 * i + j) = c)) \<longrightarrow>
      turnToHeading heading 60 w = Some (False, (stallOnce heading ^^ 5) w) \<and>
      (\<forall>p. p \<noteq> motorArm \<longrightarrow> motor ((stallOnce heading ^^ 5) w) p = 0) \<and>
      sensorCompass ((stallOnce heading ^^ 5) w) = sdrop 35 (sensorCompass w))"
proof (intro conjI impI)
  assume "0 \<le> numReadings \<and> numReadings \<le> 5 \<and> lastReading \<noteq> heading \<and>
    (\<forall>j<nat (6 - numReadings). sensorCompass w !! j = lastReading)"
  then show "turnToHeading_loop heading speed lastReading numReadings w =
        turnToHeading heading (speed + 10)
          (spin 0 ((pollMiss heading ^^ nat (6 - numReadings)) w))"
    using loop_frozen by blast
next
  show "\<forall>p. p \<noteq> motorArm \<longrightarrow>
         motor (spin 0 ((pollMiss heading ^^ nat (6 - numReadings)) w)) p = 0"
    by (simp add: motor_spin)
next
  assume "speed \<le> 100 \<and> c \<noteq> heading \<and> (\<forall>j<7. sensorCompass w !! j = c)"
  then show "turnToHeading heading speed w =
        turnToHeading heading (speed + 10) (stallOnce heading w)"
    using entry_frozen by blast
next
  show "\<forall>p. p \<noteq> motorArm \<longrightarrow> motor (stallOnce heading w) p = 0"
    by (simp add: motor_stallOnce)
next
  show "sensorCompass (stallOnce heading w) = sdrop 7 (sensorCompass w)"
    by (rule sensorCompass_stallOnce)
next
  assume "\<forall>i<5. \<exists>c. c \<noteq> heading \<and> (\<forall>j<7. sensorCompass w !! (7 * i + j) = c)"
  from stalls_escalate [OF this, of 60]
  have "turnToHeading heading 60 w = turnToHeading heading 110 ((stallOnce heading ^^ 5) w)"
    by simp
  then show "turnToHeading heading 60 w = Some (False, (stallOnce heading ^^ 5) w)"
    by (simp add: turnToHeading_entry)
next
  have "motor ((stallOnce heading ^^ Suc 4) w) p = 0" if "p \<noteq> motorArm" for p
    using that by (rule motor_stallOnce_funpow)
  then show "\<forall>p. p \<noteq> motorArm \<longrightarrow> motor ((stallOnce heading ^^ 5) w) p = 0"
    by (simp add: eval_nat_numeral)
next
  show "sensorCompass ((stallOnce heading ^^ 5) w) = sdrop 35 (sensorCompass w)"
    using sensorCompass_stallOnce_funpow [where heading = heading and n = 5 and w = w] by simp
qed

text \<open>
  The witness runs target 0 on a sensor frozen at 90. The last conjunct is a run that
  returns after one stall: the sensor reads 90 seven times, then 5 and the target 3;
  the call at speed 20 returns \<open>true\<close> from the retry, and the write of 0 to the
  wheels is among the recorded accesses.
\<close>

theorem turnToHeading_stall_escalation_witness:
  "turnToHeading_loop 0 20 90 5 (world0 (sconst 90) (sconst 0)) =
     turnToHeading 0 30 (spin 0 (pollMiss 0 (world0 (sconst 90) (sconst 0)))) \<and>
   turnToHeading 0 20 (world0 (sconst 90) (sconst 0)) =
     turnToHeading 0 30 (stallOnce 0 (world0 (sconst 90) (sconst 0))) \<and>
   turnToHeading 0 60 (world0 (sconst 90) (sconst 0)) =
     Some (False, (stallOnce 0 ^^ 5) (world0 (sconst 90) (sconst 0))) \<and>
   motor ((stallOnce 0 ^^ 5) (world0 (sconst 90) (sconst 0))) motorNW = 0 \<and>
   turnToHeading 3 20 (world0 ([90, 90, 90, 90, 90, 90, 90, 5, 3] @- sconst 77) (sconst 0)) =
     Some (True, snd (HTMCreadHeading (snd (HTMCreadHeading (stallOnce 3
       (world0 ([90, 90, 90, 90, 90, 90, 90, 5, 3] @- sconst 77) (sconst 0))))))) \<and>
   SetMotor motorNW 0 \<in> set (events (stallOnce 3
     (world0 ([90, 90, 90, 90, 90, 90, 90, 5, 3] @- sconst 77) (sconst 0))))"
proof -
  let ?w = "world0 (sconst 90) (sconst 0)"
  let ?v = "world0 ([90, 90, 90, 90, 90, 90, 90, 5, 3] @- sconst 77) (sconst 0)"
  have a: "0 \<le> (5::int) \<and> (5::int) \<le> 5 \<and> (90::int) \<noteq> 0 \<and>
      (\<forall>j<nat (6 - 5). sensorCompass ?w !! j = 90)"
    by simp
  have b: "(20::int) \<le> 100 \<and> (90::int) \<noteq> 0 \<and> (\<forall>j<7. sensorCompass ?w !! j = 90)"
    by simp
  have c: "\<forall>i<5. \<exists>c. c \<noteq> 0 \<and> (\<forall>j<7. sensorCompass ?w !! (7 * i + j) = c)"
    by (intro allI impI exI [of _ 90]) simp
  from a b c turnToHeading_stall_escalation [of 5 90 0 ?w 20 90]
  have frozen: "turnToHeading_loop 0 20 90 5 ?w = turnToHeading 0 30 (spin 0 (pollMiss 0 ?w)) \<and>
      turnToHeading 0 20 ?w = turnToHeading 0 30 (stallOnce 0 ?w) \<and>
      turnToHeading 0 60 ?w = Some (False, (stallOnce 0 ^^ 5) ?w) \<and>
      motor ((stallOnce 0 ^^ 5) ?w) motorNW = 0"
    by simp
  have d: "(20::int) \<le> 100 \<and> (90::int) \<noteq> 3 \<and> (\<forall>j<7. sensorCompass ?v !! j = 90)"
    by (simp add: eval_nat_numeral less_Suc_eq)
  from d turnToHeading_stall_escalation [of _ _ 3 ?v 20 90]
  have retry: "turnToHeading 3 20 ?v = turnToHeading 3 30 (stallOnce 3 ?v)"
    "sensorCompass (stallOnce 3 ?v) = sdrop 7 (sensorCompass ?v)"
    by simp_all
  have "turnToHeading 3 30 (stallOnce 3 ?v) =
      Some (True, snd (HTMCreadHeading ((pollMiss 3 ^^ 0) (snd (HTMCreadHeading (stallOnce 3 ?v))))))"
    by (rule entry_misses_then_hit) (simp_all add: sensorCompass_stallOnce eval_nat_numeral)
  with retry(1) have run: "turnToHeading 3 20 ?v =
      Some (True, snd (HTMCreadHeading (snd (HTMCreadHeading (stallOnce 3 ?v)))))"
    by simp
  have zero: "SetMotor motorNW 0 \<in> set (events (stallOnce 3 ?v))"
    by (simp add: stallOnce_def events_spin)
  from frozen run zero show ?thesis by blast
qed

lemma hitAfter_now:
  "shd (sensorCompass w) = heading \<Longrightarrow> hitAfter 0 heading w (snd (HTMCreadHeading w))"
  by (simp add: hitAfter_def)

lemma hitAfter_later:
  "hitAfter k heading w1 w' \<Longrightarrow> sensorCompass w1 = stl (sensorCompass w) \<Longrightarrow>
   hitAfter (Suc k) heading w w'"
  by (simp add: hitAfter_def)

lemma true_needs_hit:
  assumes "turnToHeading_from pt0 w0 = Some y0"
  shows "hitSpec pt0 w0 y0"
proof (rule turnToHeading_from.raw_induct [where P = hitSpec, OF _ assms])
  fix f pt w y
  assume IH: "\<And>pt w y. f pt w = Some y \<Longrightarrow> hitSpec pt w y"
  assume hyps: "(case pt of
       AtEntry heading speed \<Rightarrow>
         if speed > 100 then Some (False, w)
         else
           (let (startAngle, w) = HTMCreadHeading w;
                lastReading = startAngle;
                direction = (if crem (int32 (heading - startAngle)) 360 > 180 then 1 else - 1 :: int);
                numReadings = 0
            in f (AtLoop heading speed lastReading numReadings) w)
     | AtLoop heading speed lastReading numReadings \<Rightarrow>
         (let (currentReading, w) = HTMCreadHeading w
          in if heading \<noteq> currentReading then
               (let w = spin (int32 (20 * heading)) w;
                    w = wait10Msec 1 w;
                    numReadings =
                      (if currentReading = lastReading then numReadings + 1 else 0)
                in if numReadings > 5 then
                     (let w = spin 0 w
                      in f (AtEntry heading (speed + 10)) w)
                   else
                     (let lastReading = currentReading
                      in f (AtLoop heading speed lastReading numReadings) w))
             else Some (True, w))) = Some y"
  show "hitSpec pt w y"
  proof (cases pt)
    case (AtEntry heading speed)
    show ?thesis
      unfolding hitSpec_def
    proof
      assume y: "fst y"
      with AtEntry hyps have
        "f (AtLoop heading speed (shd (sensorCompass w)) 0) (snd (HTMCreadHeading w)) = Some y"
        by (auto simp: Let_def case_prod_unfold split: if_splits)
      from IH [OF this] y obtain k where "hitAfter k heading (snd (HTMCreadHeading w)) (snd y)"
        by (auto simp: hitSpec_def)
      then have "hitAfter (Suc k) heading w (snd y)"
        by (rule hitAfter_later) simp
      with AtEntry show "case pt of
          AtEntry heading speed \<Rightarrow> \<exists>k. hitAfter (Suc k) heading w (snd y)
        | AtLoop heading speed lastReading numReadings \<Rightarrow> \<exists>k. hitAfter k heading w (snd y)"
        by auto
    qed
  next
    case (AtLoop heading speed lastReading numReadings)
    let ?r = "shd (sensorCompass w)"
    let ?n = "if ?r = lastReading then numReadings + 1 else 0"
    have "fst y \<longrightarrow> (\<exists>k. hitAfter k heading w (snd y))"
    proof
      assume y: "fst y"
      show "\<exists>k. hitAfter k heading w (snd y)"
      proof (cases "heading = ?r")
        case True
        with AtLoop hyps have "y = (True, snd (HTMCreadHeading w))"
          by (auto simp: Let_def case_prod_unfold)
        with True hitAfter_now [of w heading] show ?thesis by auto
      next
        case False
        show ?thesis
        proof (cases "?n > 5")
          case True
          with False AtLoop hyps have
            "f (AtEntry heading (speed + 10)) (spin 0 (pollMiss heading w)) = Some y"
            by (auto simp: Let_def pollMiss_def case_prod_unfold split: if_splits)
          from IH [OF this] y obtain k
            where "hitAfter (Suc k) heading (spin 0 (pollMiss heading w)) (snd y)"
            by (auto simp: hitSpec_def)
          then have "hitAfter (Suc (Suc k)) heading w (snd y)"
            by (rule hitAfter_later) simp
          then show ?thesis ..
        next
          case n: False
          with False AtLoop hyps have
            "f (AtLoop heading speed ?r ?n) (pollMiss heading w) = Some y"
            by (auto simp: Let_def pollMiss_def case_prod_unfold split: if_splits)
          from IH [OF this] y obtain k
            where "hitAfter k heading (pollMiss heading w) (snd y)"
            by (auto simp: hitSpec_def)
          then have "hitAfter (Suc k) heading w (snd y)"
            by (rule hitAfter_later) simp
          then show ?thesis ..
        qed
      qed
    qed
    with AtLoop show ?thesis by (simp add: hitSpec_def)
  qed
qed

lemma turnToHeading_true_hit:
  assumes "turnToHeading heading speed w = Some (True, w')"
  shows "\<exists>k. hitAfter (Suc k) heading w w'"
  using true_needs_hit [of "AtEntry heading speed" w "(True, w')"] assms
  by (simp add: turnToHeading_def hitSpec_def)

text \<open>
  C5. \<open>turnToHeading\<close> returns \<open>true\<close> exactly when a poll of its loop reads the target
  itself; there is no tolerance band.
  \<^item> If the poll at a test of the loop reads exactly the target, the loop returns \<open>true\<close>
    there, with no further hardware access.
  \<^item> If a call returns \<open>true\<close>, then some reading after the first of the trace (the
    first is the start angle, which is not compared) is exactly the target, the call
    has consumed the trace up to and including that reading, and its last hardware
    access is the sensor read that returned the target.
  \<^item> On a trace none of whose readings is exactly the target, the call never returns
    \<open>true\<close>: it returns \<open>false\<close> or does not return.
\<close>

theorem turnToHeading_true_iff_poll_hit:
  "(shd (sensorCompass w) = heading \<longrightarrow>
      turnToHeading_loop heading speed lastReading numReadings w =
        Some (True, snd (HTMCreadHeading w))) \<and>
   (turnToHeading heading speed w = Some (True, w') \<longrightarrow>
      (\<exists>k\<ge>1. sensorCompass w !! k = heading \<and>
             sensorCompass w' = sdrop (Suc k) (sensorCompass w) \<and>
             events w' \<noteq> [] \<and> last (events w') = ReadHeading heading)) \<and>
   ((\<forall>k. sensorCompass w !! k \<noteq> heading) \<longrightarrow>
      turnToHeading heading speed w \<noteq> Some (True, w'))"
proof (intro conjI impI)
  assume "shd (sensorCompass w) = heading"
  then show "turnToHeading_loop heading speed lastReading numReadings w =
        Some (True, snd (HTMCreadHeading w))"
    by (subst turnToHeading_loop_poll) simp
next
  assume "turnToHeading heading speed w = Some (True, w')"
  from turnToHeading_true_hit [OF this] obtain k where "hitAfter (Suc k) heading w w'" ..
  then have "Suc k \<ge> 1 \<and> sensorCompass w !! Suc k = heading \<and>
             sensorCompass w' = sdrop (Suc (Suc k)) (sensorCompass w) \<and>
             events w' \<noteq> [] \<and> last (events w') = ReadHeading heading"
    by (simp add: hitAfter_def)
  then show "\<exists>k\<ge>1. sensorCompass w !! k = heading \<and>
             sensorCompass w' = sdrop (Suc k) (sensorCompass w) \<and>
             events w' \<noteq> [] \<and> last (events w') = ReadHeading heading"
    by blast
next
  assume never: "\<forall>k. sensorCompass w !! k \<noteq> heading"
  show "turnToHeading heading speed w \<noteq> Some (True, w')"
  proof
    assume "turnToHeading heading speed w = Some (True, w')"
    from turnToHeading_true_hit [OF this] obtain k where "hitAfter (Suc k) heading w w'" ..
    with never show False unfolding hitAfter_def by blast
  qed
qed

theorem turnToHeading_true_iff_poll_hit_witness:
  "turnToHeading_loop 90 20 10 0 (world0 (sconst 90) (sconst 0)) =
     Some (True, snd (HTMCreadHeading (world0 (sconst 90) (sconst 0)))) \<and>
   turnToHeading 90 20 (world0 (10 ## sconst 90) (sconst 0)) =
     Some (True, snd (HTMCreadHeading (snd (HTMCreadHeading
       (world0 (10 ## sconst 90) (sconst 0)))))) \<and>
   last (events (snd (HTMCreadHeading (snd (HTMCreadHeading
       (world0 (10 ## sconst 90) (sconst 0))))))) = ReadHeading 90 \<and>
   turnToHeading 90 20 (world0 (sconst 10) (sconst 0)) \<noteq>
     Some (True, world0 (sconst 10) (sconst 0))"
proof -
  let ?w = "world0 (10 ## sconst 90) (sconst 0)"
  let ?w' = "snd (HTMCreadHeading (snd (HTMCreadHeading ?w)))"
  have hit: "shd (sensorCompass (world0 (sconst 90) (sconst 0))) = 90" by simp
  have run: "turnToHeading 90 20 ?w = Some (True, ?w')"
    by (simp add: turnToHeading_entry turnToHeading_loop_poll)
  have never: "\<forall>k. sensorCompass (world0 (sconst 10) (sconst 0)) !! k \<noteq> 90" by simp
  from hit turnToHeading_true_iff_poll_hit [of "world0 (sconst 90) (sconst 0)" 90 20 10 0]
  have a: "turnToHeading_loop 90 20 10 0 (world0 (sconst 90) (sconst 0)) =
     Some (True, snd (HTMCreadHeading (world0 (sconst 90) (sconst 0))))" by blast
  from run turnToHeading_true_iff_poll_hit [of ?w 90 20 _ _ ?w']
  have b: "last (events ?w') = ReadHeading 90" by blast
  from never
    turnToHeading_true_iff_poll_hit [of "world0 (sconst 10) (sconst 0)" 90 20 _ _
      "world0 (sconst 10) (sconst 0)"]
  have c: "turnToHeading 90 20 (world0 (sconst 10) (sconst 0)) \<noteq>
     Some (True, world0 (sconst 10) (sconst 0))" by blast
  from a run b c show ?thesis by blast
qed

section \<open>Properties of \<open>armStep\<close>\<close>

lemma encoderArm_pollEncoder [simp]: "encoderArm (pollEncoder w) = stl (encoderArm w)"
  by (simp add: pollEncoder_def wait1Msec_def readEncoderArm_def)

lemma encoderArm_read [simp]: "encoderArm (snd (readEncoderArm w)) = stl (encoderArm w)"
  by (simp add: readEncoderArm_def)

lemma encoderArm_armStep_start [simp]: "encoderArm (armStep_start speed w) = encoderArm w"
  by (simp add: armStep_start_def setMotor_def wait10Msec_def setEncoderArm_def)

lemma encoderArm_pollEncoder_funpow:
  "encoderArm ((pollEncoder ^^ k) w) = sdrop k (encoderArm w)"
  by (induction k arbitrary: w) (simp_all add: funpow_swap1)

lemma armStep_branches:
  "armStep speed stepSize w =
     (if speed > 0 then armStep_up stepSize (armStep_start speed w)
      else armStep_down stepSize (armStep_start speed w))"
  by (simp add: armStep_def armStep_start_def Let_def)

lemma armStep_up_poll:
  "armStep_up stepSize w =
     (if shd (encoderArm w) < \<bar>stepSize\<bar> then armStep_up stepSize (pollEncoder w)
      else Some (snd (readEncoderArm w)))"
  by (subst armStep_up.simps) (simp add: pollEncoder_def readEncoderArm_def)

lemma armStep_down_poll:
  "armStep_down stepSize w =
     (if shd (encoderArm w) > - \<bar>stepSize\<bar> then armStep_down stepSize (pollEncoder w)
      else Some (snd (readEncoderArm w)))"
  by (subst armStep_down.simps) (simp add: pollEncoder_def readEncoderArm_def)

lemma armStep_up_reaches:
  "\<forall>j<k. encoderArm (w :: world) !! j < \<bar>stepSize\<bar> \<Longrightarrow> encoderArm w !! k \<ge> \<bar>stepSize\<bar> \<Longrightarrow>
   armStep_up stepSize w = Some (snd (readEncoderArm ((pollEncoder ^^ k) w)))"
proof (induction k arbitrary: w)
  case 0
  then show ?case by (subst armStep_up_poll) simp
next
  case (Suc k)
  from Suc.prems(1) have hd: "shd (encoderArm w) < \<bar>stepSize\<bar>" by (auto dest: spec [of _ 0])
  have "\<forall>j<k. encoderArm (pollEncoder w) !! j < \<bar>stepSize\<bar>" using Suc.prems(1) by auto
  moreover have "encoderArm (pollEncoder w) !! k \<ge> \<bar>stepSize\<bar>" using Suc.prems(2) by simp
  ultimately have "armStep_up stepSize (pollEncoder w) =
      Some (snd (readEncoderArm ((pollEncoder ^^ k) (pollEncoder w))))" by (rule Suc.IH)
  with hd show ?case by (subst armStep_up_poll) (simp add: funpow_swap1)
qed

lemma armStep_down_reaches:
  "\<forall>j<k. encoderArm (w :: world) !! j > - \<bar>stepSize\<bar> \<Longrightarrow> encoderArm w !! k \<le> - \<bar>stepSize\<bar> \<Longrightarrow>
   armStep_down stepSize w = Some (snd (readEncoderArm ((pollEncoder ^^ k) w)))"
proof (induction k arbitrary: w)
  case 0
  then show ?case by (subst armStep_down_poll) simp
next
  case (Suc k)
  from Suc.prems(1) have hd: "shd (encoderArm w) > - \<bar>stepSize\<bar>" by (auto dest: spec [of _ 0])
  have "\<forall>j<k. encoderArm (pollEncoder w) !! j > - \<bar>stepSize\<bar>" using Suc.prems(1) by auto
  moreover have "encoderArm (pollEncoder w) !! k \<le> - \<bar>stepSize\<bar>" using Suc.prems(2) by simp
  ultimately have "armStep_down stepSize (pollEncoder w) =
      Some (snd (readEncoderArm ((pollEncoder ^^ k) (pollEncoder w))))" by (rule Suc.IH)
  with hd show ?case by (subst armStep_down_poll) (simp add: funpow_swap1)
qed

lemma armStep_up_exit:
  assumes "armStep_up stepSize0 w0 = Some y0"
  shows "\<exists>k. encoderArm w0 !! k \<ge> \<bar>stepSize0\<bar>"
proof (rule armStep_up.raw_induct
    [where P = "\<lambda>stepSize (w :: world) y. \<exists>k. encoderArm w !! k \<ge> \<bar>stepSize\<bar>", OF _ assms])
  fix f :: "int \<Rightarrow> world \<Rightarrow> world option" and stepSize and w :: world and y
  assume IH: "\<And>stepSize w y. f stepSize w = Some y \<Longrightarrow> \<exists>k. encoderArm w !! k \<ge> \<bar>stepSize\<bar>"
  assume hyps: "(let (enc, w) = readEncoderArm w
     in if enc < \<bar>stepSize\<bar> then f stepSize (wait1Msec 5 w) else Some w) = Some y"
  show "\<exists>k. encoderArm w !! k \<ge> \<bar>stepSize\<bar>"
  proof (cases "shd (encoderArm w) < \<bar>stepSize\<bar>")
    case True
    with hyps have "f stepSize (pollEncoder w) = Some y"
      by (simp add: pollEncoder_def readEncoderArm_def)
    from IH [OF this] obtain k where "encoderArm w !! Suc k \<ge> \<bar>stepSize\<bar>" by auto
    then show ?thesis ..
  next
    case False
    then have "encoderArm w !! 0 \<ge> \<bar>stepSize\<bar>" by simp
    then show ?thesis ..
  qed
qed

lemma armStep_down_exit:
  assumes "armStep_down stepSize0 w0 = Some y0"
  shows "\<exists>k. encoderArm w0 !! k \<le> - \<bar>stepSize0\<bar>"
proof (rule armStep_down.raw_induct
    [where P = "\<lambda>stepSize (w :: world) y. \<exists>k. encoderArm w !! k \<le> - \<bar>stepSize\<bar>", OF _ assms])
  fix f :: "int \<Rightarrow> world \<Rightarrow> world option" and stepSize and w :: world and y
  assume IH: "\<And>stepSize w y. f stepSize w = Some y \<Longrightarrow> \<exists>k. encoderArm w !! k \<le> - \<bar>stepSize\<bar>"
  assume hyps: "(let (enc, w) = readEncoderArm w
     in if enc > - \<bar>stepSize\<bar> then f stepSize (wait1Msec 5 w) else Some w) = Some y"
  show "\<exists>k. encoderArm w !! k \<le> - \<bar>stepSize\<bar>"
  proof (cases "shd (encoderArm w) > - \<bar>stepSize\<bar>")
    case True
    with hyps have "f stepSize (pollEncoder w) = Some y"
      by (simp add: pollEncoder_def readEncoderArm_def)
    from IH [OF this] obtain k where "encoderArm w !! Suc k \<le> - \<bar>stepSize\<bar>" by auto
    then show ?thesis ..
  next
    case False
    then have "encoderArm w !! 0 \<le> - \<bar>stepSize\<bar>" by simp
    then show ?thesis ..
  qed
qed

text \<open>
  C9. Let \<open>stepSize\<close> be non-negative, as the tick count of the contract is.
  With positive \<open>speed\<close>: if reading number \<open>k\<close> of the encoder trace is the first that
  is at least \<open>stepSize\<close>, then \<open>armStep\<close> returns, having read the encoder exactly
  \<open>k + 1\<close> times, so it stops as soon as the trace reaches the threshold; and if no
  reading of the trace ever reaches \<open>stepSize\<close>, \<open>armStep\<close> does not return.
  With negative \<open>speed\<close> the same holds for the first reading that is at most
  \<open>- stepSize\<close>. There is no timeout.
\<close>

theorem armStep_termination:
  assumes "0 \<le> stepSize"
  shows "(speed > 0 \<longrightarrow>
           ((\<forall>j<k. encoderArm w !! j < stepSize) \<and> encoderArm w !! k \<ge> stepSize \<longrightarrow>
              (\<exists>w'. armStep speed stepSize w = Some w' \<and>
                    encoderArm w' = sdrop (Suc k) (encoderArm w))) \<and>
           ((\<forall>k. encoderArm w !! k < stepSize) \<longrightarrow> armStep speed stepSize w = None)) \<and>
         (speed < 0 \<longrightarrow>
           ((\<forall>j<k. encoderArm w !! j > - stepSize) \<and> encoderArm w !! k \<le> - stepSize \<longrightarrow>
              (\<exists>w'. armStep speed stepSize w = Some w' \<and>
                    encoderArm w' = sdrop (Suc k) (encoderArm w))) \<and>
           ((\<forall>k. encoderArm w !! k > - stepSize) \<longrightarrow> armStep speed stepSize w = None))"
proof -
  have a: "\<bar>stepSize\<bar> = stepSize" using assms by simp
  have up1: "\<exists>w'. armStep speed stepSize w = Some w' \<and>
                    encoderArm w' = sdrop (Suc k) (encoderArm w)"
    if "speed > 0" "\<forall>j<k. encoderArm w !! j < stepSize" "encoderArm w !! k \<ge> stepSize" for k
    using armStep_up_reaches [where k = k and w = "armStep_start speed w" and stepSize = stepSize] that
    by (simp add: armStep_branches a encoderArm_pollEncoder_funpow)
  have up2: "armStep speed stepSize w = None"
    if "speed > 0" "\<forall>k. encoderArm w !! k < stepSize"
  proof (cases "armStep speed stepSize w")
    case None then show ?thesis .
  next
    case (Some y)
    with that(1) have "armStep_up stepSize (armStep_start speed w) = Some y"
      by (simp add: armStep_branches)
    from armStep_up_exit [OF this] that(2) show ?thesis by (simp add: a not_le [symmetric])
  qed
  have dn1: "\<exists>w'. armStep speed stepSize w = Some w' \<and>
                    encoderArm w' = sdrop (Suc k) (encoderArm w)"
    if "speed < 0" "\<forall>j<k. encoderArm w !! j > - stepSize" "encoderArm w !! k \<le> - stepSize" for k
    using armStep_down_reaches [where k = k and w = "armStep_start speed w" and stepSize = stepSize] that
    by (simp add: armStep_branches a encoderArm_pollEncoder_funpow)
  have dn2: "armStep speed stepSize w = None"
    if "speed < 0" "\<forall>k. encoderArm w !! k > - stepSize"
  proof (cases "armStep speed stepSize w")
    case None then show ?thesis .
  next
    case (Some y)
    with that(1) have "armStep_down stepSize (armStep_start speed w) = Some y"
      by (simp add: armStep_branches)
    from armStep_down_exit [OF this] that(2) show ?thesis by (simp add: a not_le [symmetric])
  qed
  show ?thesis using up1 up2 dn1 dn2 by blast
qed

theorem armStep_termination_witness:
  "(0::int) \<le> 100 \<and>
   (\<exists>w'. armStep 50 100 (world0 (sconst 0) (0 ## 40 ## sconst 120)) = Some w' \<and>
         encoderArm w' = sconst 120) \<and>
   armStep 50 100 (world0 (sconst 0) (sconst 0)) = None \<and>
   (\<exists>w'. armStep (- 50) 100 (world0 (sconst 0) (0 ## sconst (- 100))) = Some w' \<and>
         encoderArm w' = sconst (- 100)) \<and>
   armStep (- 50) 100 (world0 (sconst 0) (sconst 0)) = None"
proof -
  have up: "(\<forall>j<2. encoderArm (world0 (sconst 0) (0 ## 40 ## sconst 120)) !! j < 100) \<and>
            encoderArm (world0 (sconst 0) (0 ## 40 ## sconst 120)) !! 2 \<ge> 100"
    by (simp add: numeral_2_eq_2 less_Suc_eq)
  have dn: "(\<forall>j<1. encoderArm (world0 (sconst 0) (0 ## sconst (- 100))) !! j > - 100) \<and>
            encoderArm (world0 (sconst 0) (0 ## sconst (- 100))) !! 1 \<le> - 100"
    by simp
  have frozen: "\<forall>k. encoderArm (world0 (sconst 0) (sconst 0)) !! k < 100"
    "\<forall>k. encoderArm (world0 (sconst 0) (sconst 0)) !! k > - 100"
    by simp_all
  from up armStep_termination [of 100 50 2 "world0 (sconst 0) (0 ## 40 ## sconst 120)"]
  have a: "\<exists>w'. armStep 50 100 (world0 (sconst 0) (0 ## 40 ## sconst 120)) = Some w' \<and>
         encoderArm w' = sconst 120"
    by (simp add: numeral_2_eq_2)
  from frozen(1) armStep_termination [of 100 50 _ "world0 (sconst 0) (sconst 0)"]
  have b: "armStep 50 100 (world0 (sconst 0) (sconst 0)) = None" by simp
  from dn armStep_termination [of 100 "- 50" 1 "world0 (sconst 0) (0 ## sconst (- 100))"]
  have c: "\<exists>w'. armStep (- 50) 100 (world0 (sconst 0) (0 ## sconst (- 100))) = Some w' \<and>
         encoderArm w' = sconst (- 100)"
    by simp
  from frozen(2) armStep_termination [of 100 "- 50" _ "world0 (sconst 0) (sconst 0)"]
  have d: "armStep (- 50) 100 (world0 (sconst 0) (sconst 0)) = None" by simp
  from a b c d show ?thesis by simp
qed

end
